theory Spec2Isabelle
  imports Complex_Main
begin

section \<open>Floating-point values\<close>

text \<open>
  The source computes with 64-bit floats (\<^verbatim>\<open>jax_enable_x64\<close>). The model idealises
  rounding: a finite float is a real number. What it keeps of IEEE arithmetic are the
  three special results the source can produce, the two infinities and NaN, because the
  transforms and the test statistic reach them (division by a zero width, arcsin outside
  \<open>[-1, 1]\<close>, the square root of a negative number). Zero is unsigned: \<open>b - a\<close> for equal
  operands is \<open>+0\<close> in IEEE arithmetic, the only zero divisor the source can build.
\<close>

datatype float64 = Fin real | PInf | NInf | NaN

fun inf_of_sign :: "real \<Rightarrow> float64" where
  "inf_of_sign s = (if 0 < s then PInf else if s < 0 then NInf else NaN)"

fun sign_of :: "float64 \<Rightarrow> real" where
  "sign_of (Fin x) = sgn x"
| "sign_of PInf = 1"
| "sign_of NInf = - 1"
| "sign_of NaN = 0"

fun fneg :: "float64 \<Rightarrow> float64" where
  "fneg (Fin x) = Fin (- x)"
| "fneg PInf = NInf"
| "fneg NInf = PInf"
| "fneg NaN = NaN"

instantiation float64 :: "{plus, minus, times, inverse}"
begin

fun plus_float64 :: "float64 \<Rightarrow> float64 \<Rightarrow> float64" where
  "plus_float64 NaN y = NaN"
| "plus_float64 x NaN = NaN"
| "plus_float64 (Fin x) (Fin y) = Fin (x + y)"
| "plus_float64 PInf NInf = NaN"
| "plus_float64 NInf PInf = NaN"
| "plus_float64 PInf y = PInf"
| "plus_float64 NInf y = NInf"
| "plus_float64 (Fin x) y = y"

definition minus_float64 :: "float64 \<Rightarrow> float64 \<Rightarrow> float64" where
  "minus_float64 x y = x + fneg y"

fun times_float64 :: "float64 \<Rightarrow> float64 \<Rightarrow> float64" where
  "times_float64 NaN y = NaN"
| "times_float64 x NaN = NaN"
| "times_float64 (Fin x) (Fin y) = Fin (x * y)"
| "times_float64 x y = inf_of_sign (sign_of x * sign_of y)"

fun divide_float64 :: "float64 \<Rightarrow> float64 \<Rightarrow> float64" where
  "divide_float64 NaN y = NaN"
| "divide_float64 x NaN = NaN"
| "divide_float64 (Fin x) (Fin y) = (if y = 0 then inf_of_sign x else Fin (x / y))"
| "divide_float64 (Fin x) y = Fin 0"
| "divide_float64 x (Fin y) = (if y = 0 then x else inf_of_sign (sign_of x * y))"
| "divide_float64 x y = NaN"

definition inverse_float64 :: "float64 \<Rightarrow> float64" where
  "inverse_float64 x = divide (Fin 1) x"

instance ..

end

text \<open>\<^verbatim>\<open>x < y\<close> on floats: false as soon as one side is NaN.\<close>

fun fless :: "float64 \<Rightarrow> float64 \<Rightarrow> bool" where
  "fless (Fin x) (Fin y) = (x < y)"
| "fless (Fin x) PInf = True"
| "fless NInf (Fin y) = True"
| "fless NInf PInf = True"
| "fless x y = False"

text \<open>\<^verbatim>\<open>jnp.sin\<close>, \<^verbatim>\<open>jnp.arcsin\<close>, \<^verbatim>\<open>jnp.sqrt\<close>: NaN outside the domain.\<close>

fun fsin :: "float64 \<Rightarrow> float64" where
  "fsin (Fin x) = Fin (sin x)"
| "fsin x = NaN"

fun farcsin :: "float64 \<Rightarrow> float64" where
  "farcsin (Fin x) = (if - 1 \<le> x \<and> x \<le> 1 then Fin (arcsin x) else NaN)"
| "farcsin x = NaN"

fun fsqrt :: "float64 \<Rightarrow> float64" where
  "fsqrt (Fin x) = (if 0 \<le> x then Fin (sqrt x) else NaN)"
| "fsqrt PInf = PInf"
| "fsqrt x = NaN"

text \<open>
  The standard normal distribution function \<open>\<Phi>\<close>, by its power series around 0:
  \<open>\<Phi>(x) = 1/2 + (1 / sqrt (2 \<pi>)) * (\<Sum>n. (-1)^n x^(2n+1) / (2^n n! (2n+1)))\<close>.
\<close>

definition std_normal_cdf :: "real \<Rightarrow> real" where
  "std_normal_cdf x =
     1 / 2 + (1 / sqrt (2 * pi)) *
       (\<Sum>n. (- 1) ^ n * x ^ (2 * n + 1) / (2 ^ n * fact n * real (2 * n + 1)))"

text \<open>\<^verbatim>\<open>pyhf.tensorlib.normal_cdf\<close> (location 0, scale 1).\<close>

fun normal_cdf :: "float64 \<Rightarrow> float64" where
  "normal_cdf (Fin x) = Fin (std_normal_cdf x)"
| "normal_cdf PInf = Fin 1"
| "normal_cdf NInf = Fin 0"
| "normal_cdf NaN = NaN"

section \<open>Errors and arrays\<close>

text \<open>
  The exceptions the modelled code can raise by itself: indexing past the end of an
  array (or with too many indices), a missing dictionary key, two array shapes that do
  not broadcast, an argument that \<^verbatim>\<open>jax.jit\<close> cannot trace, and Python's division of a
  number by zero.
\<close>

datatype error = IndexError | KeyError string | ShapeError | TypeError | ZeroDivisionError

text \<open>
  A one-dimensional array is a list. An elementwise binary operation broadcasts as
  numpy does on shapes \<open>(n,)\<close> and \<open>(m,)\<close>: equal lengths pair up, a length-one array is
  repeated, anything else is refused.
\<close>

definition bcast ::
  "(float64 \<Rightarrow> float64 \<Rightarrow> float64) \<Rightarrow> float64 list \<Rightarrow> float64 list \<Rightarrow> error + float64 list"
where
  "bcast f xs ys =
     (if length xs = length ys then Inr (map2 f xs ys)
      else if length xs = 1 then Inr (map (f (hd xs)) ys)
      else if length ys = 1 then Inr (map (\<lambda>x. f x (hd ys)) xs)
      else Inl ShapeError)"

text \<open>
  \<^verbatim>\<open>bounds = jnp.asarray(bounds); a, b = bounds[:, 0], bounds[:, 1]\<close>: the table of
  \<open>(lower, upper)\<close> rows split into its two columns. An empty table is an array of shape
  \<open>(0,)\<close>, for which the two-index subscript raises.
\<close>

definition columns :: "(float64 \<times> float64) list \<Rightarrow> error + float64 list \<times> float64 list" where
  "columns bounds = (if bounds = [] then Inl IndexError else Inr (map fst bounds, map snd bounds))"

section \<open>Transforms\<close>

text \<open>
  \<^verbatim>\<open>
  def to_bounded_vec(param, bounds):
      bounds = jnp.asarray(bounds)
      a, b = bounds[:, 0], bounds[:, 1]
      return a + (b - a) * 0.5 * (jnp.sin(param) + 1.0)
  \<close>
\<close>

definition to_bounded_vec ::
  "float64 list \<Rightarrow> (float64 \<times> float64) list \<Rightarrow> error + float64 list"
where
  "to_bounded_vec param bounds =
     (case columns bounds of Inl e \<Rightarrow> Inl e | Inr (a, b) \<Rightarrow>
       (case bcast (-) b a of Inl e \<Rightarrow> Inl e | Inr w \<Rightarrow>
         (case bcast (*) (map (\<lambda>d. d * Fin 0.5) w) (map (\<lambda>s. s + Fin 1) (map fsin param)) of
            Inl e \<Rightarrow> Inl e
          | Inr t \<Rightarrow> bcast (+) a t)))"

text \<open>
  \<^verbatim>\<open>
  def to_bounded(param, bounds):
      a, b = bounds
      return a + (b - a) * 0.5 * (jnp.sin(param) + 1.0)
  \<close>
\<close>

text \<open>
  Over exact reals here; with rounding after every operation it is \<open>to_bounded_ieee\<close>
  further down.
\<close>

fun to_bounded :: "float64 \<Rightarrow> float64 \<times> float64 \<Rightarrow> float64" where
  "to_bounded param (a, b) = a + (b - a) * Fin 0.5 * (fsin param + Fin 1)"

text \<open>
  \<^verbatim>\<open>
  def to_inf_vec(param, bounds):
      bounds = jnp.asarray(bounds)
      a, b = bounds[:, 0], bounds[:, 1]
      x = (2.0 * param - a) / (b - a) - 1.0
      return jnp.arcsin(x)
  \<close>
\<close>

definition to_inf_vec ::
  "float64 list \<Rightarrow> (float64 \<times> float64) list \<Rightarrow> error + float64 list"
where
  "to_inf_vec param bounds =
     (case columns bounds of Inl e \<Rightarrow> Inl e | Inr (a, b) \<Rightarrow>
       (case bcast (-) (map (\<lambda>p. Fin 2 * p) param) a of Inl e \<Rightarrow> Inl e | Inr n \<Rightarrow>
         (case bcast (-) b a of Inl e \<Rightarrow> Inl e | Inr w \<Rightarrow>
           (case bcast (/) n w of Inl e \<Rightarrow> Inl e | Inr q \<Rightarrow>
              Inr (map farcsin (map (\<lambda>v. v - Fin 1) q))))))"

text \<open>
  \<^verbatim>\<open>
  def to_inf(param, bounds):
      a, b = bounds
      x = (2.0 * param - a) / (b - a) - 1.0
      return jnp.arcsin(x)
  \<close>
\<close>

text \<open>
  On array scalars, as the notebook calls it (\<^verbatim>\<open>to_inf(p[0], b[0])\<close>), every operation is an
  array operation and none raises:
\<close>

fun to_inf :: "float64 \<Rightarrow> float64 \<times> float64 \<Rightarrow> float64" where
  "to_inf param (a, b) = (let x = (Fin 2 * param - a) / (b - a) - Fin 1 in farcsin x)"

text \<open>
  On plain Python numbers the subtractions and the division are Python's own, and Python's
  division raises when the divisor \<open>b - a\<close> is zero; \<^verbatim>\<open>jnp.arcsin\<close> then takes the number.
\<close>

definition to_inf_py :: "real \<Rightarrow> real \<times> real \<Rightarrow> error + float64" where
  "to_inf_py param bounds =
     (case bounds of (a, b) \<Rightarrow>
        if b - a = 0 then Inl ZeroDivisionError
        else (let x = (2 * param - a) / (b - a) - 1 in Inr (farcsin (Fin x))))"

section \<open>The bounded transform in rounded arithmetic\<close>

text \<open>
  The transforms above compute with exact reals. Where a property is about the size of
  a float64 result itself, rounding and overflow decide it, so \<^verbatim>\<open>to_bounded\<close> is modelled
  a second time with every arithmetic operation followed by rounding. The rounding
  \<open>rnd\<close> takes the exact result of an operation on finite floats to the float64 that the
  operation returns: a finite float, or an infinity when the result overflows. Operations
  with an infinity or NaN as operand are the ones of the first model.

  \<open>x \<le> y\<close> on floats: false as soon as one side is NaN.
\<close>

fun fle :: "float64 \<Rightarrow> float64 \<Rightarrow> bool" where
  "fle NaN y = False"
| "fle x NaN = False"
| "fle NInf y = True"
| "fle x PInf = True"
| "fle (Fin x) (Fin y) = (x \<le> y)"
| "fle x y = False"

text \<open>\<^verbatim>\<open>+\<close>, \<^verbatim>\<open>-\<close>, \<^verbatim>\<open>*\<close> and \<^verbatim>\<open>jnp.sin\<close> (the float sine \<open>sn\<close>) on float64 values.\<close>

fun rplus :: "(real \<Rightarrow> float64) \<Rightarrow> float64 \<Rightarrow> float64 \<Rightarrow> float64" where
  "rplus rnd (Fin x) (Fin y) = rnd (x + y)"
| "rplus rnd x y = x + y"

fun rminus :: "(real \<Rightarrow> float64) \<Rightarrow> float64 \<Rightarrow> float64 \<Rightarrow> float64" where
  "rminus rnd (Fin x) (Fin y) = rnd (x - y)"
| "rminus rnd x y = x - y"

fun rtimes :: "(real \<Rightarrow> float64) \<Rightarrow> float64 \<Rightarrow> float64 \<Rightarrow> float64" where
  "rtimes rnd (Fin x) (Fin y) = rnd (x * y)"
| "rtimes rnd x y = x * y"

fun rsin :: "(real \<Rightarrow> float64) \<Rightarrow> float64 \<Rightarrow> float64" where
  "rsin sn (Fin x) = sn x"
| "rsin sn x = NaN"

text \<open>
  \<^verbatim>\<open>
  def to_bounded(param, bounds):
      a, b = bounds
      return a + (b - a) * 0.5 * (jnp.sin(param) + 1.0)
  \<close>
\<close>

fun to_bounded_ieee ::
  "(real \<Rightarrow> float64) \<Rightarrow> (real \<Rightarrow> float64) \<Rightarrow> float64 \<Rightarrow> float64 \<times> float64 \<Rightarrow> float64"
where
  "to_bounded_ieee rnd sn param (a, b) =
     rplus rnd a
       (rtimes rnd (rtimes rnd (rminus rnd b a) (Fin 0.5)) (rplus rnd (rsin sn param) (Fin 1)))"

text \<open>
  What the proofs use of a rounding: it is monotone, and it leaves its own finite results
  (the floats) unchanged. Monotonicity at \<open>x = y\<close> says that it never returns NaN.
\<close>

definition rounding :: "(real \<Rightarrow> float64) \<Rightarrow> bool" where
  "rounding rnd \<longleftrightarrow>
     (\<forall>x y. x \<le> y \<longrightarrow> fle (rnd x) (rnd y)) \<and> (\<forall>x y. rnd x = Fin y \<longrightarrow> rnd y = Fin y)"

text \<open>
  Round-to-nearest-even to binary64, the rounding of the source's arithmetic. A real is
  rounded to the nearest integer multiple of \<open>2 ^ e\<close>, ties to the even multiple, where
  \<open>e\<close> is 52 below the exponent of its binade and never below \<open>-1074\<close> (the subnormal
  spacing); from \<open>2 ^ 1024 - 2 ^ 970\<close> on, half a spacing above the largest float
  \<open>2 ^ 1024 - 2 ^ 971\<close>, the result is the infinity of its sign.
\<close>

definition rne :: "real \<Rightarrow> int" where
  "rne z = (let f = \<lfloor>z\<rfloor>; d = z - of_int f in
            if d < 1 / 2 then f else if 1 / 2 < d then f + 1 else if even f then f else f + 1)"

definition ulp_exp :: "real \<Rightarrow> int" where
  "ulp_exp u = max (\<lfloor>log 2 u\<rfloor> - 52) (- 1074)"

definition round_mag :: "real \<Rightarrow> real" where
  "round_mag u = (if u = 0 then 0 else of_int (rne (u / 2 powr of_int (ulp_exp u))) * 2 powr of_int (ulp_exp u))"

definition round64 :: "real \<Rightarrow> float64" where
  "round64 x =
     (if 2 ^ 1024 - 2 ^ 970 \<le> \<bar>x\<bar> then inf_of_sign x else Fin (sgn x * round_mag \<bar>x\<bar>))"

text \<open>A correctly rounded sine.\<close>

definition sin64 :: "real \<Rightarrow> float64" where
  "sin64 x = round64 (sin x)"

section \<open>Inference\<close>

text \<open>
  What the model-builder collaborator hands over: an object with the three members the
  code reads, \<^verbatim>\<open>m.expected_data(pars)\<close>, \<^verbatim>\<open>m.config.suggested_bounds()\<close> and
  \<^verbatim>\<open>m.logpdf(pars, data)\<close>, the last returning an array of which element 0 is used.
\<close>

record model =
  expected_data :: "float64 list \<Rightarrow> float64 list"
  suggested_bounds :: "(float64 \<times> float64) list"
  logpdf :: "float64 list \<Rightarrow> float64 list \<Rightarrow> float64 list"

text \<open>Values of the keyword dictionary \<^verbatim>\<open>solver_kwargs\<close>, and Python's truth test on them.\<close>

datatype pyval = PyNone | PyBool bool | PyInt int | PyFloat real | PyStr string

fun truthy :: "pyval \<Rightarrow> bool" where
  "truthy PyNone = False"
| "truthy (PyBool b) = b"
| "truthy (PyInt i) = (i \<noteq> 0)"
| "truthy (PyFloat r) = (r \<noteq> 0)"
| "truthy (PyStr s) = (s \<noteq> [])"

text \<open>\<^verbatim>\<open>d.get(key, default)\<close>\<close>

definition dict_get :: "(string \<rightharpoonup> 'v) \<Rightarrow> string \<Rightarrow> 'v \<Rightarrow> 'v" where
  "dict_get d k dflt = (case d k of None \<Rightarrow> dflt | Some v \<Rightarrow> v)"

text \<open>\<^verbatim>\<open>xs[0]\<close> on an array\<close>

definition index0 :: "'a list \<Rightarrow> error + 'a" where
  "index0 xs = (case xs of [] \<Rightarrow> Inl IndexError | x # _ \<Rightarrow> Inr x)"

text \<open>The local variables of \<^verbatim>\<open>get_expected_CLs\<close> when it reaches its last statement.\<close>

record cls_locals =
  initval :: "float64 list"
  numerator :: "float64 list"
  denominator :: "float64 list"
  profile_likelihood :: float64
  muhat :: float64
  sqrtqmu :: float64
  CLsb :: float64
  CLb :: float64
  CLs :: float64

text \<open>
  The body of \<^verbatim>\<open>get_expected_CLs\<close> up to the dictionary of p-values. The fit
  component (\<^verbatim>\<open>neos.fit.constrained_fit\<close>) is a parameter: applied to the model maker
  and the solver keywords it gives the fit callable \<^verbatim>\<open>c_fitter\<close>. The model maker and
  the fit are total functions here: an exception of theirs is outside the model. The
  requested keys enter only in the last statement, modelled after this one.
  \<^verbatim>\<open>
  c_fitter = constrained_fit(model_maker, **solver_kwargs)
  m, bonlypars = model_maker([params, hyperparams])
  exp_data = m.expected_data(bonlypars)
  bounds = m.config.suggested_bounds()
  initval = jnp.asarray([test_mu, 1.0])
  transforms = solver_kwargs.get("pdf_transform", False)
  if transforms:
      initval = to_inf_vec(initval, bounds)
  numerator = (
      to_bounded_vec(c_fitter(initval, [[params, hyperparams], test_mu]), bounds)
      if transforms
      else c_fitter(initval, [[params, hyperparams], test_mu])
  )
  denominator = bonlypars
  profile_likelihood = -2 * (
      m.logpdf(numerator, exp_data)[0] - m.logpdf(denominator, exp_data)[0]
  )
  muhat = denominator[0]
  sqrtqmu = jnp.sqrt(jnp.where(muhat < test_mu, profile_likelihood, 0.0))
  CLsb = 1 - pyhf.tensorlib.normal_cdf(sqrtqmu)
  altval = 0
  CLb = 1 - pyhf.tensorlib.normal_cdf(altval)
  CLs = CLsb / CLb
  \<close>
\<close>

definition get_expected_CLs_body ::
  "(('p \<times> 'h \<Rightarrow> model \<times> float64 list) \<Rightarrow> (string \<rightharpoonup> pyval) \<Rightarrow>
      float64 list \<Rightarrow> ('p \<times> 'h) \<times> float64 \<Rightarrow> float64 list) \<Rightarrow>
   ('p \<times> 'h \<Rightarrow> model \<times> float64 list) \<Rightarrow> (string \<rightharpoonup> pyval) \<Rightarrow>
   'p \<Rightarrow> float64 \<Rightarrow> 'h \<Rightarrow> error + cls_locals"
where
  "get_expected_CLs_body constrained_fit model_maker solver_kwargs params test_mu hyperparams =
     (let c_fitter = constrained_fit model_maker solver_kwargs;
          (m, bonlypars) = model_maker (params, hyperparams);
          exp_data = expected_data m bonlypars;
          bounds = suggested_bounds m;
          initval0 = [test_mu, Fin 1];
          transforms = dict_get solver_kwargs ''pdf_transform'' (PyBool False)
      in
      case (if truthy transforms then to_inf_vec initval0 bounds else Inr initval0) of
        Inl e \<Rightarrow> Inl e
      | Inr initval1 \<Rightarrow>
      (case (if truthy transforms
             then to_bounded_vec (c_fitter initval1 ((params, hyperparams), test_mu)) bounds
             else Inr (c_fitter initval1 ((params, hyperparams), test_mu))) of
        Inl e \<Rightarrow> Inl e
      | Inr numerator1 \<Rightarrow>
      (let denominator1 = bonlypars in
       case index0 (logpdf m numerator1 exp_data) of Inl e \<Rightarrow> Inl e | Inr lnum \<Rightarrow>
      (case index0 (logpdf m denominator1 exp_data) of Inl e \<Rightarrow> Inl e | Inr lden \<Rightarrow>
      (let profile_likelihood1 = Fin (- 2) * (lnum - lden) in
       case index0 denominator1 of Inl e \<Rightarrow> Inl e | Inr muhat1 \<Rightarrow>
      (let sqrtqmu1 = fsqrt (if fless muhat1 test_mu then profile_likelihood1 else Fin 0);
           CLsb1 = Fin 1 - normal_cdf sqrtqmu1;
           altval = Fin 0;
           CLb1 = Fin 1 - normal_cdf altval;
           CLs1 = CLsb1 / CLb1
       in Inr \<lparr>initval = initval1, numerator = numerator1, denominator = denominator1,
                profile_likelihood = profile_likelihood1, muhat = muhat1, sqrtqmu = sqrtqmu1,
                CLsb = CLsb1, CLb = CLb1, CLs = CLs1\<rparr>))))))"

text \<open>
  \<^verbatim>\<open>
  pdict = dict(CLs=CLs, p_sb=CLsb, p_b=CLb)
  return [pdict[key] for key in pvalues]
  \<close>
\<close>

definition pdict :: "cls_locals \<Rightarrow> (string \<rightharpoonup> float64)" where
  "pdict l = [''CLs'' \<mapsto> CLs l, ''p_sb'' \<mapsto> CLsb l, ''p_b'' \<mapsto> CLb l]"

fun lookup_all :: "(string \<rightharpoonup> float64) \<Rightarrow> string list \<Rightarrow> error + float64 list" where
  "lookup_all d [] = Inr []"
| "lookup_all d (key # keys) =
     (case d key of None \<Rightarrow> Inl (KeyError key)
      | Some v \<Rightarrow> (case lookup_all d keys of Inl e \<Rightarrow> Inl e | Inr vs \<Rightarrow> Inr (v # vs)))"

text \<open>
  \<^verbatim>\<open>
  @jax.jit
  def get_expected_CLs(params, test_mu, hyperparams=None, pvalues=["CLs"]):
  \<close>
  The function is wrapped by \<^verbatim>\<open>jax.jit\<close> with no static argument. Before the body runs,
  the wrapper flattens the arguments of the call into array leaves, and a string is not
  one: a \<open>pvalues\<close> list that the caller passes has its strings refused with a
  \<^verbatim>\<open>TypeError\<close>. The default \<^verbatim>\<open>["CLs"]\<close> is not an argument of the call, never reaches the
  wrapper, and is what the body sees when the caller leaves \<open>pvalues\<close> out (\<open>None\<close> below).
  A list with no string in it has no leaf to refuse.
\<close>

definition jit_pvalues :: "string list option \<Rightarrow> error + string list" where
  "jit_pvalues passed =
     (case passed of
        None \<Rightarrow> Inr [''CLs'']
      | Some keys \<Rightarrow> if keys = [] then Inr [] else Inl TypeError)"

definition get_expected_CLs ::
  "(('p \<times> 'h \<Rightarrow> model \<times> float64 list) \<Rightarrow> (string \<rightharpoonup> pyval) \<Rightarrow>
      float64 list \<Rightarrow> ('p \<times> 'h) \<times> float64 \<Rightarrow> float64 list) \<Rightarrow>
   ('p \<times> 'h \<Rightarrow> model \<times> float64 list) \<Rightarrow> (string \<rightharpoonup> pyval) \<Rightarrow>
   'p \<Rightarrow> float64 \<Rightarrow> 'h \<Rightarrow> string list option \<Rightarrow> error + float64 list"
where
  "get_expected_CLs constrained_fit model_maker solver_kwargs params test_mu hyperparams pvalues =
     (case jit_pvalues pvalues of
        Inl e \<Rightarrow> Inl e
      | Inr keys \<Rightarrow>
        (case get_expected_CLs_body constrained_fit model_maker solver_kwargs params test_mu
                hyperparams of
           Inl e \<Rightarrow> Inl e
         | Inr l \<Rightarrow> lookup_all (pdict l) keys))"

section \<open>Reference formula and example inputs\<close>

text \<open>
  The inverse transform as the specification and the module's own documentation write
  it, \<open>arcsin (2 (y - a) / (b - a) - 1)\<close>, over the reals.
\<close>

definition to_inf_spec :: "real \<Rightarrow> real \<times> real \<Rightarrow> real" where
  "to_inf_spec y bounds = (case bounds of (a, b) \<Rightarrow> arcsin (2 * (y - a) / (b - a) - 1))"

text \<open>
  A small model on which the inference code is evaluated: two parameters, both bounded
  by \<open>[0, 10]\<close>, a log-density that is a parabola in the first parameter around the first
  datum, the given data as expected data, and \<open>[0, 1]\<close> as background-only point. The
  fit used with it leaves the initial point where it is.
\<close>

definition gauss_model :: "float64 list \<Rightarrow> model" where
  "gauss_model asimov =
     \<lparr>expected_data = (\<lambda>pars. asimov),
      suggested_bounds = [(Fin 0, Fin 10), (Fin 0, Fin 10)],
      logpdf = (\<lambda>pars data. case (pars, data) of
                  (Fin mu # _, Fin d # _) \<Rightarrow> [Fin (- ((mu - d) * (mu - d)))]
                | _ \<Rightarrow> [NaN])\<rparr>"

definition gauss_maker :: "float64 list \<Rightarrow> unit \<times> unit \<Rightarrow> model \<times> float64 list" where
  "gauss_maker asimov ph = (gauss_model asimov, [Fin 0, Fin 1])"

text \<open>The same model with a background-only point of the caller's choice.\<close>

definition gauss_maker_at ::
  "float64 list \<Rightarrow> float64 list \<Rightarrow> unit \<times> unit \<Rightarrow> model \<times> float64 list"
where
  "gauss_maker_at bonly asimov ph = (gauss_model asimov, bonly)"

definition idle_fit ::
  "(unit \<times> unit \<Rightarrow> model \<times> float64 list) \<Rightarrow> (string \<rightharpoonup> pyval) \<Rightarrow>
   float64 list \<Rightarrow> (unit \<times> unit) \<times> float64 \<Rightarrow> float64 list"
where
  "idle_fit mm kw init arg = init"

section \<open>Properties of the transforms\<close>

lemma to_bounded_Fin:
  "to_bounded (Fin x) (Fin a, Fin b) = Fin (a + (b - a) * 0.5 * (sin x + 1))"
  by (simp add: minus_float64_def)

lemma to_inf_Fin:
  "a \<noteq> b \<Longrightarrow> to_inf (Fin y) (Fin a, Fin b) = farcsin (Fin ((2 * y - a) / (b - a) - 1))"
  by (simp add: minus_float64_def)

lemma to_inf_zero_width: "to_inf (Fin y) (Fin a, Fin a) = NaN"
  by (simp add: minus_float64_def)

lemma bcast_same: "length xs = length ys \<Longrightarrow> bcast f xs ys = Inr (map2 f xs ys)"
  by (simp add: bcast_def)

text \<open>With one row of bounds per component, the vector transforms are the scalar ones row by row.\<close>

lemma to_bounded_vec_rows:
  assumes "length param = length bounds" and "bounds \<noteq> []"
  shows "to_bounded_vec param bounds = Inr (map2 to_bounded param bounds)"
proof -
  have "map2 (+) (map fst bounds)
          (map2 (*) (map (\<lambda>d. d * Fin 0.5) (map2 (-) (map snd bounds) (map fst bounds)))
             (map (\<lambda>s. s + Fin 1) (map fsin param)))
        = map2 to_bounded param bounds"
    using assms(1)
    by (induction param bounds rule: list_induct2) auto
  then show ?thesis
    using assms by (simp add: to_bounded_vec_def columns_def bcast_same)
qed

lemma to_inf_vec_rows:
  assumes "length param = length bounds" and "bounds \<noteq> []"
  shows "to_inf_vec param bounds = Inr (map2 to_inf param bounds)"
proof -
  have "map farcsin (map (\<lambda>v. v - Fin 1)
          (map2 (/) (map2 (-) (map (\<lambda>p. Fin 2 * p) param) (map fst bounds))
             (map2 (-) (map snd bounds) (map fst bounds))))
        = map2 to_inf param bounds"
    using assms(1)
    by (induction param bounds rule: list_induct2) auto
  then show ?thesis
    using assms by (simp add: to_inf_vec_def columns_def bcast_same)
qed

text \<open>
  Where the lower bound is 0, as in every bounds table of the module's own tests, the
  code and the documented formula agree, and the round trip is exact.
\<close>

lemma to_inf_zero_lower:
  assumes "0 < b" and "0 \<le> y" and "y \<le> b"
  shows "to_inf (Fin y) (Fin 0, Fin b) = Fin (to_inf_spec y (0, b))"
proof -
  have "- 1 \<le> 2 * y / b - 1" using assms by simp
  moreover have "2 * y / b - 1 \<le> 1" using assms by (simp add: field_simps)
  ultimately show ?thesis
    using assms by (simp add: minus_float64_def to_inf_spec_def)
qed

lemma round_trip_zero_lower:
  assumes "0 < b" and "- (pi / 2) \<le> x" and "x \<le> pi / 2"
  shows "to_inf (to_bounded (Fin x) (Fin 0, Fin b)) (Fin 0, Fin b) = Fin x"
proof -
  have "(2 * (b * 0.5 * (sin x + 1))) / b - 1 = sin x"
    using assms(1) by (simp add: field_simps)
  then show ?thesis
    using assms by (simp add: minus_float64_def arcsin_sin)
qed

text \<open>
  C1. The claim: for \<open>a < b\<close> and \<open>y\<close> in \<open>[a, b]\<close>, \<open>to_inf(y, (a, b))\<close> is
  \<open>arcsin (2 (y - a) / (b - a) - 1)\<close>, whose argument lies in \<open>[-1, 1]\<close>, and \<open>to_inf_vec\<close>
  computes the same per component. The code computes \<open>(2 y - a) / (b - a) - 1\<close> instead,
  which is off by \<open>a / (b - a)\<close>. On the bounds \<open>(-5, 5)\<close>: at the upper bound \<open>y = 5\<close> the
  code returns \<open>\<pi>/6\<close> where the formula gives \<open>\<pi>/2\<close>, and at the lower bound \<open>y = -5\<close>
  the arcsin argument is \<open>-3/2\<close> and the code returns NaN where the formula gives
  \<open>-\<pi>/2\<close>; the vector variant returns the same two values.
\<close>

theorem to_inf_offset_slip:
  "to_inf (Fin 5) (Fin (- 5), Fin 5) = Fin (pi / 6) \<and> to_inf_spec 5 (- 5, 5) = pi / 2 \<and>
   to_inf (Fin (- 5)) (Fin (- 5), Fin 5) = NaN \<and> to_inf_spec (- 5) (- 5, 5) = - (pi / 2) \<and>
   to_inf_vec [Fin 5, Fin (- 5)] [(Fin (- 5), Fin 5), (Fin (- 5), Fin 5)] = Inr [Fin (pi / 6), NaN]"
  by (simp add: to_inf_vec_rows minus_float64_def to_inf_spec_def)

text \<open>
  C2. The claim: \<open>to_inf_vec (to_bounded_vec x)\<close> gives back \<open>x\<close> for components in
  \<open>[-\<pi>/2, \<pi>/2]\<close>, and \<open>to_bounded (to_inf y)\<close> gives back \<open>y\<close> inside the bounds. On the
  bounds \<open>(-5, 5)\<close> the code maps \<open>x = 0\<close> to \<open>0\<close> and that back to \<open>-\<pi>/6\<close>; and it maps
  \<open>y = 0\<close> to \<open>-\<pi>/6\<close> and that back to \<open>-5/2\<close>.
\<close>

theorem round_trip_offset_slip:
  "to_bounded_vec [Fin 0] [(Fin (- 5), Fin 5)] = Inr [Fin 0] \<and>
   to_inf_vec [Fin 0] [(Fin (- 5), Fin 5)] = Inr [Fin (- (pi / 6))] \<and>
   to_inf (Fin 0) (Fin (- 5), Fin 5) = Fin (- (pi / 6)) \<and>
   to_bounded (Fin (- (pi / 6))) (Fin (- 5), Fin 5) = Fin (- (5 / 2))"
  by (simp add: to_inf_vec_rows to_bounded_vec_rows minus_float64_def arcsin_minus sin_30)

text \<open>
  Over exact reals, for \<open>a < b\<close> and every real \<open>x\<close>, \<open>to_bounded\<close> is
  \<open>a + (b - a) / 2 * (sin x + 1)\<close> and lies in \<open>[a, b]\<close>.
\<close>

lemma to_bounded_exact_range:
  assumes "a < b"
  shows "\<exists>r. to_bounded (Fin x) (Fin a, Fin b) = Fin r \<and>
             r = a + (b - a) / 2 * (sin x + 1) \<and> a \<le> r \<and> r \<le> b"
proof -
  let ?r = "a + (b - a) / 2 * (sin x + 1)"
  have eq: "to_bounded (Fin x) (Fin a, Fin b) = Fin ?r"
    by (simp add: minus_float64_def)
  have s0: "0 \<le> sin x + 1" using sin_ge_minus_one [of x] by linarith
  have s2: "sin x + 1 \<le> 2" using sin_le_one [of x] by linarith
  have w: "0 \<le> (b - a) / 2" using assms by simp
  have lo: "0 \<le> (b - a) / 2 * (sin x + 1)"
    using w s0 by (rule mult_nonneg_nonneg)
  have "(b - a) / 2 * (sin x + 1) \<le> (b - a) / 2 * 2"
    using s2 w by (rule mult_left_mono)
  then have hi: "(b - a) / 2 * (sin x + 1) \<le> b - a" by simp
  show ?thesis using eq lo hi by auto
qed

text \<open>
  With a non-zero width the call on Python numbers computes what the call on arrays does.
\<close>

lemma to_inf_py_array: "a \<noteq> b \<Longrightarrow> to_inf_py y (a, b) = Inr (to_inf (Fin y) (Fin a, Fin b))"
  by (simp add: to_inf_py_def minus_float64_def)

text \<open>
  C8. The claim: with \<open>lower \<ge> upper\<close> every transform fails with a DegenerateBounds
  error. The code has no such check. On the pair \<open>(3, 1)\<close> all four transforms return a
  value, and on the pair \<open>(1, 1)\<close> \<open>to_bounded\<close> returns \<open>1\<close>.
\<close>

theorem degenerate_bounds_counterexample:
  "to_bounded (Fin 0) (Fin 3, Fin 1) = Fin 2 \<and>
   to_bounded_vec [Fin 0] [(Fin 3, Fin 1)] = Inr [Fin 2] \<and>
   to_inf (Fin 1) (Fin 3, Fin 1) = Fin (- (pi / 6)) \<and>
   to_inf_vec [Fin 1] [(Fin 3, Fin 1)] = Inr [Fin (- (pi / 6))] \<and>
   to_bounded (Fin 0) (Fin 1, Fin 1) = Fin 1"
  by (simp add: to_inf_vec_rows to_bounded_vec_rows minus_float64_def arcsin_minus)

text \<open>
  C8, as the code has it. No transform looks at the order of a bound pair. On a table
  that holds a row with \<open>lower \<ge> upper\<close>, one row per component, the vector variants
  return the scalar results row by row, as on any other table. \<open>to_inf\<close> on Python numbers
  returns what it returns on arrays when \<open>lower > upper\<close>, and raises
  \<^verbatim>\<open>ZeroDivisionError\<close>, from its division by \<open>b - a\<close>, when \<open>lower = upper\<close>.
\<close>

theorem degenerate_bounds_silent:
  assumes "b \<le> a"
  shows "(length ps = length bs \<and> (Fin a, Fin b) \<in> set bs \<longrightarrow>
            to_bounded_vec ps bs = Inr (map2 to_bounded ps bs) \<and>
            to_inf_vec ps bs = Inr (map2 to_inf ps bs)) \<and>
         (b < a \<longrightarrow> to_inf_py y (a, b) = Inr (to_inf (Fin y) (Fin a, Fin b))) \<and>
         (b = a \<longrightarrow> to_inf_py y (a, b) = Inl ZeroDivisionError)"
proof -
  have vec: "to_bounded_vec ps bs = Inr (map2 to_bounded ps bs) \<and>
             to_inf_vec ps bs = Inr (map2 to_inf ps bs)"
    if "length ps = length bs \<and> (Fin a, Fin b) \<in> set bs"
  proof -
    from that have "bs \<noteq> []" by auto
    with that show ?thesis
      by (simp add: to_bounded_vec_rows to_inf_vec_rows)
  qed
  have py: "to_inf_py y (a, b) = Inr (to_inf (Fin y) (Fin a, Fin b))" if "b < a"
    using that by (simp add: to_inf_py_array)
  have zero: "to_inf_py y (a, b) = Inl ZeroDivisionError" if "b = a"
    using that by (simp add: to_inf_py_def)
  show ?thesis
    using vec py zero by blast
qed

theorem degenerate_bounds_silent_witness:
  "(1::real) \<le> 1 \<and> (1::real) \<le> 3 \<and>
   to_bounded_vec [Fin 7, Fin 0] [(Fin 1, Fin 1), (Fin 0, Fin 10)] = Inr [Fin 1, Fin 5] \<and>
   to_inf_vec [Fin 7, Fin 0] [(Fin 1, Fin 1), (Fin 0, Fin 10)] = Inr [NaN, Fin (- (pi / 2))] \<and>
   to_inf_py 7 (1, 1) = Inl ZeroDivisionError \<and>
   to_inf_py 1 (3, 1) = Inr (Fin (- (pi / 6)))"
  using degenerate_bounds_silent
    [of 1 1 "[Fin 7, Fin 0]" "[(Fin 1, Fin 1), (Fin 0, Fin 10)]" 7]
    degenerate_bounds_silent [of 1 3 "[]" "[]" 1]
  by (simp add: minus_float64_def arcsin_minus)

section \<open>Properties of the bounded transform in rounded arithmetic\<close>

text \<open>Rounding to the nearest integer, ties to even: fixes the integers and is monotone.\<close>

lemma rne_int [simp]: "rne (of_int n) = n"
  by (simp add: rne_def)

lemma rne_mono: "x \<le> y \<Longrightarrow> rne x \<le> rne y"
proof -
  assume xy: "x \<le> y"
  have fl: "\<lfloor>x\<rfloor> \<le> \<lfloor>y\<rfloor>" using xy by (rule floor_mono)
  have lo: "\<lfloor>z\<rfloor> \<le> rne z" for z by (simp add: rne_def Let_def)
  have hi: "rne z \<le> \<lfloor>z\<rfloor> + 1" for z by (simp add: rne_def Let_def)
  show ?thesis
  proof (cases "\<lfloor>x\<rfloor> = \<lfloor>y\<rfloor>")
    case True
    then show ?thesis using xy by (auto simp: rne_def Let_def)
  next
    case False
    with fl have "\<lfloor>x\<rfloor> + 1 \<le> \<lfloor>y\<rfloor>" by simp
    with hi [of x] lo [of y] show ?thesis by linarith
  qed
qed

lemma round64_0: "round64 0 = Fin 0"
  by (simp add: round64_def round_mag_def)


lemma rne_below_half: "z < of_int n + 1 / 2 \<Longrightarrow> rne z \<le> n"
proof -
  assume z: "z < of_int n + 1 / 2"
  have "\<lfloor>z\<rfloor> \<le> n"
  proof -
    have "z < of_int (n + 1)" using z by simp
    then have "\<lfloor>z\<rfloor> < n + 1" by (simp only: floor_less_iff)
    then show ?thesis by simp
  qed
  then consider "\<lfloor>z\<rfloor> = n" | "\<lfloor>z\<rfloor> + 1 \<le> n" by linarith
  then show ?thesis
  proof cases
    case 1
    then have "z - of_int \<lfloor>z\<rfloor> < 1 / 2" using z by simp
    then show ?thesis using 1 by (simp add: rne_def Let_def)
  next
    case 2
    have "rne z \<le> \<lfloor>z\<rfloor> + 1" by (simp add: rne_def Let_def)
    with 2 show ?thesis by linarith
  qed
qed

lemma rne_pow2 [simp]: "rne (2 ^ n) = 2 ^ n"
  using rne_int [of "2 ^ n"] by simp

lemma rne_0 [simp]: "rne 0 = 0"
  by (simp add: rne_def)

lemma rne_nonneg: "0 \<le> z \<Longrightarrow> 0 \<le> rne z"
  using rne_mono [of 0 z] by simp

lemma pow2_int: "0 \<le> j \<Longrightarrow> (2::real) powr (of_int j) = of_int (2 ^ nat j)"
proof -
  assume "0 \<le> j"
  then have "(2::real) powr (of_int j) = 2 powr (real (nat j))" by simp
  also have "\<dots> = 2 ^ nat j" by (simp add: powr_realpow)
  finally show ?thesis by simp
qed

lemma pow2_quot: "(2::real) powr x / 2 powr y = 2 powr (x - y)"
  by (simp add: powr_diff)

text \<open>A positive real lies in the binade of its exponent.\<close>

lemma binade:
  assumes "0 < u"
  shows "2 powr of_int \<lfloor>log 2 u\<rfloor> \<le> u \<and> u < 2 powr (of_int \<lfloor>log 2 u\<rfloor> + 1)"
  using floor_log_eq_powr_iff [of u 2 "\<lfloor>log 2 u\<rfloor>"] assms by simp

lemma binade_mono: "0 < u \<Longrightarrow> u \<le> v \<Longrightarrow> \<lfloor>log 2 u\<rfloor> \<le> \<lfloor>log 2 v\<rfloor>"
  by (intro floor_mono) simp

lemma ulp_exp_mono: "0 < u \<Longrightarrow> u \<le> v \<Longrightarrow> ulp_exp u \<le> ulp_exp v"
  using binade_mono [of u v] by (simp add: ulp_exp_def)

lemma round_mag_nonneg: "0 \<le> u \<Longrightarrow> 0 \<le> round_mag u"
  by (simp add: round_mag_def rne_nonneg)

text \<open>Rounding on the grid of \<open>u\<close> does not pass a power of two that lies on that grid.\<close>

lemma round_mag_le_pow2:
  assumes u: "0 < u" and le: "u \<le> 2 powr of_int j" and grid: "ulp_exp u \<le> j"
  shows "round_mag u \<le> 2 powr of_int j"
proof -
  let ?g = "(2::real) powr of_int (ulp_exp u)"
  have g: "0 < ?g" by simp
  have q: "2 powr of_int j / ?g = of_int (2 ^ nat (j - ulp_exp u))"
    using grid pow2_int [of "j - ulp_exp u"] by (simp add: pow2_quot)
  have "u / ?g \<le> 2 powr of_int j / ?g"
    using le g by (simp add: divide_right_mono)
  then have "rne (u / ?g) \<le> rne (2 powr of_int j / ?g)" by (rule rne_mono)
  then have "rne (u / ?g) \<le> 2 ^ nat (j - ulp_exp u)" unfolding q by simp
  then have "(of_int (rne (u / ?g)) :: real) \<le> of_int (2 ^ nat (j - ulp_exp u))"
    by (simp only: of_int_le_iff)
  then have "of_int (rne (u / ?g)) * ?g \<le> of_int (2 ^ nat (j - ulp_exp u)) * ?g"
    using g by (simp add: mult_right_mono)
  also have "of_int (2 ^ nat (j - ulp_exp u)) * ?g = 2 powr of_int j"
    using q g by (simp add: field_simps)
  finally show ?thesis using u by (simp add: round_mag_def)
qed

lemma round_mag_ge_pow2:
  assumes u: "0 < u" and ge: "2 powr of_int j \<le> u" and grid: "ulp_exp u \<le> j"
  shows "2 powr of_int j \<le> round_mag u"
proof -
  let ?g = "(2::real) powr of_int (ulp_exp u)"
  have g: "0 < ?g" by simp
  have q: "2 powr of_int j / ?g = of_int (2 ^ nat (j - ulp_exp u))"
    using grid pow2_int [of "j - ulp_exp u"] by (simp add: pow2_quot)
  have "2 powr of_int j / ?g \<le> u / ?g"
    using ge g by (simp add: divide_right_mono)
  then have "rne (2 powr of_int j / ?g) \<le> rne (u / ?g)" by (rule rne_mono)
  then have "2 ^ nat (j - ulp_exp u) \<le> rne (u / ?g)" unfolding q by simp
  then have "(of_int (2 ^ nat (j - ulp_exp u)) :: real) \<le> of_int (rne (u / ?g))"
    by (simp only: of_int_le_iff)
  then have A: "of_int (2 ^ nat (j - ulp_exp u)) * ?g \<le> of_int (rne (u / ?g)) * ?g"
    using g by (simp add: mult_right_mono)
  have "2 powr of_int j = of_int (2 ^ nat (j - ulp_exp u)) * ?g"
    using q g by (simp add: field_simps)
  also note A
  finally show ?thesis using u by (simp add: round_mag_def)
qed

text \<open>
  Monotonicity on positive reals: on one grid by the integer rounding, across grids
  through the power of two that separates them, which lies on both.
\<close>

lemma round_mag_mono:
  assumes u: "0 < u" and uv: "u \<le> v"
  shows "round_mag u \<le> round_mag v"
proof -
  have v: "0 < v" using u uv by simp
  have e: "ulp_exp u \<le> ulp_exp v" using u uv by (rule ulp_exp_mono)
  show ?thesis
  proof (cases "ulp_exp u = ulp_exp v")
    case True
    let ?g = "(2::real) powr of_int (ulp_exp v)"
    have "u / ?g \<le> v / ?g" using uv by (simp add: divide_right_mono)
    then have "rne (u / ?g) \<le> rne (v / ?g)" by (rule rne_mono)
    then have "(of_int (rne (u / ?g)) :: real) * ?g \<le> of_int (rne (v / ?g)) * ?g"
      by (simp add: mult_right_mono)
    then show ?thesis using u v True by (simp add: round_mag_def)
  next
    case False
    with e have lt: "ulp_exp u < ulp_exp v" by simp
    let ?kv = "\<lfloor>log 2 v\<rfloor>"
    let ?ku = "\<lfloor>log 2 u\<rfloor>"
    from lt have ev: "ulp_exp v = ?kv - 52"
      unfolding ulp_exp_def by arith
    from lt have k: "?ku < ?kv"
      unfolding ulp_exp_def by arith
    have "u < 2 powr (of_int ?ku + 1)" using binade [OF u] by simp
    also have "\<dots> \<le> 2 powr of_int ?kv"
      using k by (intro powr_mono) auto
    finally have uB: "u \<le> 2 powr of_int ?kv" by simp
    have gu: "ulp_exp u \<le> ?kv" using lt ev by simp
    have gv: "ulp_exp v \<le> ?kv" using ev by simp
    have "round_mag u \<le> 2 powr of_int ?kv"
      using u uB gu by (rule round_mag_le_pow2)
    also have "\<dots> \<le> round_mag v"
      using v binade [OF v] gv by (intro round_mag_ge_pow2) auto
    finally show ?thesis .
  qed
qed


text \<open>A result of the rounding is on the grid of its own binade, so rounding it again changes nothing.\<close>

lemma round_mag_fixed:
  assumes "0 < y" and "y / 2 powr of_int (ulp_exp y) = of_int n"
  shows "round_mag y = y"
proof -
  have "round_mag y = of_int (rne (of_int n)) * 2 powr of_int (ulp_exp y)"
    using assms by (simp add: round_mag_def)
  also have "\<dots> = (y / 2 powr of_int (ulp_exp y)) * 2 powr of_int (ulp_exp y)"
    using assms(2) by simp
  also have "\<dots> = y" by simp
  finally show ?thesis .
qed

lemma round_mag_top:
  assumes u: "0 < u"
  shows "round_mag u \<le> 2 powr of_int (max (\<lfloor>log 2 u\<rfloor> + 1) (- 1022))"
proof (rule round_mag_le_pow2 [OF u])
  have "u < 2 powr (of_int \<lfloor>log 2 u\<rfloor> + 1)" using binade [OF u] by simp
  also have "\<dots> \<le> 2 powr of_int (max (\<lfloor>log 2 u\<rfloor> + 1) (- 1022))"
    by (intro powr_mono) auto
  finally show "u \<le> 2 powr of_int (max (\<lfloor>log 2 u\<rfloor> + 1) (- 1022))" by simp
  show "ulp_exp u \<le> max (\<lfloor>log 2 u\<rfloor> + 1) (- 1022)"
    unfolding ulp_exp_def by arith
qed

lemma round_mag_idem:
  assumes u: "0 < u"
  shows "round_mag (round_mag u) = round_mag u"
proof (cases "round_mag u = 0")
  case True
  then show ?thesis by (simp add: round_mag_def)
next
  case False
  define y where "y = round_mag u"
  define m where "m = rne (u / 2 powr of_int (ulp_exp u))"
  have y0: "0 < y"
    using False round_mag_nonneg [of u] u by (simp add: y_def)
  have ym: "y = of_int m * 2 powr of_int (ulp_exp u)"
    using u by (simp add: y_def m_def round_mag_def)
  have "round_mag y = y"
  proof (cases "ulp_exp y \<le> ulp_exp u")
    case True
    have "y / 2 powr of_int (ulp_exp y)
            = of_int m * (2 powr of_int (ulp_exp u) / 2 powr of_int (ulp_exp y))"
      by (simp add: ym)
    also have "2 powr of_int (ulp_exp u) / 2 powr of_int (ulp_exp y)
                 = (of_int (2 ^ nat (ulp_exp u - ulp_exp y)) :: real)"
      using True pow2_int [of "ulp_exp u - ulp_exp y"] by (simp add: pow2_quot)
    finally have "y / 2 powr of_int (ulp_exp y) = of_int (m * 2 ^ nat (ulp_exp u - ulp_exp y))"
      by simp
    with y0 show ?thesis by (rule round_mag_fixed)
  next
    case False
    let ?ky = "\<lfloor>log 2 y\<rfloor>"
    let ?ku = "\<lfloor>log 2 u\<rfloor>"
    from False have ey: "ulp_exp y = ?ky - 52"
      unfolding ulp_exp_def by arith
    from False have k: "max (?ku + 1) (- 1022) \<le> ?ky"
      unfolding ulp_exp_def by arith
    have "y \<le> 2 powr of_int (max (?ku + 1) (- 1022))"
      unfolding y_def by (rule round_mag_top [OF u])
    also have "\<dots> \<le> 2 powr of_int ?ky"
      using k by (intro powr_mono) auto
    finally have "y \<le> 2 powr of_int ?ky" .
    with binade [OF y0] have yk: "y = 2 powr of_int ?ky" by simp
    have "y / 2 powr of_int (ulp_exp y) = 2 powr of_int ?ky / 2 powr of_int (?ky - 52)"
      using yk ey by simp
    also have "\<dots> = 2 powr 52" by (simp add: pow2_quot)
    also have "\<dots> = of_int (2 ^ 52)"
      using pow2_int [of 52] by simp
    finally have "y / 2 powr of_int (ulp_exp y) = of_int (2 ^ 52)" .
    with y0 show ?thesis by (rule round_mag_fixed)
  qed
  then show ?thesis by (simp add: y_def)
qed


text \<open>Below the overflow threshold the rounded magnitude is at most the largest float.\<close>

lemma pow2_less_cancel: "(2::real) powr of_int k < 2 powr of_int j \<Longrightarrow> k < j"
  by simp

lemma round_mag_below:
  assumes u: "0 < u" and lt: "u < 2 ^ 1024 - 2 ^ 970"
  shows "round_mag u \<le> 2 ^ 1024 - 2 ^ 971"
proof -
  let ?k = "\<lfloor>log 2 u\<rfloor>"
  have "u < 2 powr of_int 1024"
    using lt pow2_int [of 1024] by simp
  with binade [OF u] have "2 powr of_int ?k < (2::real) powr of_int 1024" by simp
  then have "?k < 1024" by (rule pow2_less_cancel)
  then have k: "?k \<le> 1023" by linarith
  show ?thesis
  proof (cases "?k = 1023")
    case True
    then have e: "ulp_exp u = 971" by (simp add: ulp_exp_def)
    have g: "(2::real) powr of_int 971 = 2 ^ 971" using pow2_int [of 971] by simp
    have "u / 2 ^ 971 < (2 ^ 1024 - 2 ^ 970) / 2 ^ 971"
      using lt by (simp add: divide_strict_right_mono)
    also have "(2 ^ 1024 - 2 ^ 970) / 2 ^ 971 = (of_int (2 ^ 53 - 1) + 1 / 2 :: real)"
      by simp
    finally have "rne (u / 2 ^ 971) \<le> 2 ^ 53 - 1" by (rule rne_below_half)
    then have "(of_int (rne (u / 2 ^ 971)) :: real) \<le> of_int (2 ^ 53 - 1)"
      by (simp only: of_int_le_iff)
    then have "of_int (rne (u / 2 ^ 971)) * (2 ^ 971 :: real) \<le> of_int (2 ^ 53 - 1) * 2 ^ 971"
      by (simp add: mult_right_mono)
    also have "(of_int (2 ^ 53 - 1) * 2 ^ 971 :: real) = 2 ^ 1024 - 2 ^ 971" by simp
    finally show ?thesis using u e g by (simp add: round_mag_def)
  next
    case False
    with k have "max (?k + 1) (- 1022) \<le> 1023" by arith
    then have "(2::real) powr of_int (max (?k + 1) (- 1022)) \<le> 2 powr of_int 1023"
      by (intro powr_mono) auto
    also have "\<dots> = 2 ^ 1023" using pow2_int [of 1023] by simp
    also have "\<dots> \<le> (2 ^ 1024 - 2 ^ 971 :: real)" by simp
    finally show ?thesis using round_mag_top [OF u] by simp
  qed
qed

text \<open>The finite part of the rounding, with the sign put back.\<close>

lemma round_signed_mono:
  assumes "x \<le> y"
  shows "sgn x * round_mag \<bar>x\<bar> \<le> sgn y * round_mag \<bar>y\<bar>"
proof -
  consider "0 < x" | "x \<le> 0" "0 \<le> y" | "y < 0" by linarith
  then show ?thesis
  proof cases
    case 1
    then have "round_mag x \<le> round_mag y" using assms by (rule round_mag_mono)
    then show ?thesis using 1 assms by simp
  next
    case 2
    have "sgn x * round_mag \<bar>x\<bar> \<le> 0"
      using 2(1) round_mag_nonneg [of "\<bar>x\<bar>"] by (simp add: sgn_if)
    moreover have "0 \<le> sgn y * round_mag \<bar>y\<bar>"
      using 2(2) round_mag_nonneg [of "\<bar>y\<bar>"] by (simp add: sgn_if)
    ultimately show ?thesis by simp
  next
    case 3
    then have "round_mag (- y) \<le> round_mag (- x)"
      using assms by (intro round_mag_mono) auto
    then show ?thesis using 3 assms by simp
  qed
qed

lemma round64_rounding: "rounding round64"
  unfolding rounding_def
proof (intro conjI allI impI)
  fix x y :: real
  assume xy: "x \<le> y"
  show "fle (round64 x) (round64 y)"
    using xy round_signed_mono [OF xy] by (auto simp: round64_def abs_if split: if_splits)
next
  fix x y :: real
  assume r: "round64 x = Fin y"
  then have small: "\<bar>x\<bar> < 2 ^ 1024 - 2 ^ 970" and y: "y = sgn x * round_mag \<bar>x\<bar>"
    by (auto simp: round64_def split: if_splits)
  show "round64 y = Fin y"
  proof (cases "round_mag \<bar>x\<bar> = 0")
    case True
    then show ?thesis using y by (simp add: round64_def round_mag_def)
  next
    case False
    then have x0: "x \<noteq> 0" by (auto simp: round_mag_def)
    then have ax: "0 < \<bar>x\<bar>" by simp
    have pos: "0 < round_mag \<bar>x\<bar>"
      using False round_mag_nonneg [of "\<bar>x\<bar>"] by simp
    have ay: "\<bar>y\<bar> = round_mag \<bar>x\<bar>"
      using y x0 pos by (simp add: abs_mult)
    have sy: "sgn y = sgn x"
      using y x0 pos by (simp add: sgn_mult)
    have "round_mag \<bar>x\<bar> \<le> 2 ^ 1024 - 2 ^ 971"
      using ax small by (rule round_mag_below)
    also have "\<dots> < (2 ^ 1024 - 2 ^ 970 :: real)" by simp
    finally have sm: "\<bar>y\<bar> < 2 ^ 1024 - 2 ^ 970" using ay by simp
    have "round_mag \<bar>y\<bar> = round_mag \<bar>x\<bar>"
      unfolding ay by (rule round_mag_idem [OF ax])
    then have "sgn y * round_mag \<bar>y\<bar> = y" using sy y by simp
    with sm show ?thesis by (simp add: round64_def)
  qed
qed

lemma round64_pow2:
  assumes "- 1022 \<le> j" and "j \<le> 1023"
  shows "round64 (2 powr of_int j) = Fin (2 powr of_int j)"
proof -
  let ?y = "(2::real) powr of_int j"
  have y0: "0 < ?y" by simp
  have k: "\<lfloor>log 2 ?y\<rfloor> = j" by simp
  have e: "ulp_exp ?y = j - 52" using assms by (simp add: ulp_exp_def k)
  have "?y / 2 powr of_int (ulp_exp ?y) = 2 powr 52"
    unfolding e by (simp add: pow2_quot)
  also have "\<dots> = of_int (2 ^ 52)" using pow2_int [of 52] by simp
  finally have fx: "round_mag ?y = ?y" using y0 by (intro round_mag_fixed)
  have "?y \<le> 2 powr of_int 1023" using assms by (intro powr_mono) auto
  also have "\<dots> = 2 ^ 1023" using pow2_int [of 1023] by simp
  also have "\<dots> < (2 ^ 1024 - 2 ^ 970 :: real)" by simp
  finally have "\<bar>?y\<bar> < 2 ^ 1024 - 2 ^ 970" by simp
  then show ?thesis using fx by (simp add: round64_def)
qed

lemma round64_neg: "round64 (- x) = fneg (round64 x)"
  by (simp add: round64_def sgn_if)

lemma round64_1: "round64 1 = Fin 1"
  using round64_pow2 [of 0] by simp

lemma round64_2: "round64 2 = Fin 2"
  using round64_pow2 [of 1] by simp

lemma round64_4: "round64 4 = Fin 4"
  using round64_pow2 [of 2] pow2_int [of 2] by simp

lemma round64_8: "round64 8 = Fin 8"
  using round64_pow2 [of 3] pow2_int [of 3] by simp

lemma sin64_range: "\<exists>s. sin64 x = Fin s \<and> - 1 \<le> s \<and> s \<le> 1"
proof -
  have mono: "u \<le> v \<Longrightarrow> fle (round64 u) (round64 v)" for u v
    using round64_rounding by (simp add: rounding_def)
  have lo: "fle (Fin (- 1)) (round64 (sin x))"
    using mono [of "- 1" "sin x"] round64_neg [of 1] by (simp add: round64_1)
  have hi: "fle (round64 (sin x)) (Fin 1)"
    using mono [of "sin x" 1] by (simp add: round64_1)
  show ?thesis
    using lo hi by (cases "round64 (sin x)") (auto simp: sin64_def)
qed


text \<open>With no rounding at all and the exact sine, the rounded model is the first one.\<close>

lemma rplus_exact: "rplus Fin x y = x + y"
  by (cases x; cases y) simp_all

lemma rminus_exact: "rminus Fin x y = x - y"
  by (cases x; cases y) (simp_all add: minus_float64_def)

lemma rtimes_exact: "rtimes Fin x y = x * y"
  by (cases x; cases y) simp_all

lemma to_bounded_ieee_exact:
  "to_bounded_ieee Fin (\<lambda>x. Fin (sin x)) param (a, b) = to_bounded param (a, b)"
proof -
  have "rsin (\<lambda>x. Fin (sin x)) param = fsin param" by (cases param) simp_all
  then show ?thesis by (simp add: rplus_exact rminus_exact rtimes_exact)
qed

lemma rounding_mono: "rounding rnd \<Longrightarrow> x \<le> y \<Longrightarrow> fle (rnd x) (rnd y)"
  by (simp add: rounding_def)

lemma rounding_idem: "rounding rnd \<Longrightarrow> rnd x = Fin y \<Longrightarrow> rnd y = Fin y"
  unfolding rounding_def by blast

text \<open>
  The sine of the float of \<open>\<pi>/2\<close> is within \<open>2 ^ -54\<close> of 1: its Maclaurin polynomial of
  degree 21 with the remainder bound \<open>x ^ 22 / 22!\<close>.
\<close>

lemma sin_maclaurin_22:
  "(\<Sum>m<22. sin_coeff m * x ^ m) =
     x - x ^ 3 / 6 + x ^ 5 / 120 - x ^ 7 / 5040 + x ^ 9 / 362880 - x ^ 11 / 39916800
     + x ^ 13 / 6227020800 - x ^ 15 / 1307674368000 + x ^ 17 / 355687428096000 - x ^
     19 / 121645100408832000 + x ^ 21 / 51090942171709440000" for x :: real
  by (simp add: lessThan_nat_numeral sin_coeff_def fact_numeral)

lemma sin_maclaurin_22_at_half_pi:
  "(1::real) - 1 / 2 ^ 54 \<le>
     ((884279719003555 / 2 ^ 49) - (884279719003555 / 2 ^ 49) ^ 3 / 6 +
      (884279719003555 / 2 ^ 49) ^ 5 / 120 - (884279719003555 / 2 ^ 49) ^ 7 / 5040 +
      (884279719003555 / 2 ^ 49) ^ 9 / 362880 - (884279719003555 / 2 ^ 49) ^ 11 /
      39916800 + (884279719003555 / 2 ^ 49) ^ 13 / 6227020800 - (884279719003555 / 2 ^
      49) ^ 15 / 1307674368000 + (884279719003555 / 2 ^ 49) ^ 17 / 355687428096000 -
      (884279719003555 / 2 ^ 49) ^ 19 / 121645100408832000 + (884279719003555 / 2 ^
      49) ^ 21 / 51090942171709440000)
     - (884279719003555 / 2 ^ 49) ^ 22 / 1124000727777607680000"
  by (simp add: power_divide)

lemma sin_half_pi_float: "(1::real) - 1 / 2 ^ 54 \<le> sin (884279719003555 / 2 ^ 49)"
proof -
  let ?x = "(884279719003555 / 2 ^ 49) :: real"
  obtain t where t: "sin ?x = (\<Sum>m<22. sin_coeff m * ?x ^ m)
      + (sin (t + 1 / 2 * real 22 * pi) / fact 22) * ?x ^ 22"
    using Maclaurin_sin_expansion [of ?x 22] by blast
  have f: "(fact 22 :: real) = 1124000727777607680000" by (simp add: fact_numeral)
  have "- 1 \<le> sin (t + 1 / 2 * real 22 * pi)" by simp
  then have "- 1 * (?x ^ 22 / 1124000727777607680000) \<le> sin (t + 1 / 2 * real 22 * pi) * (?x ^ 22 / 1124000727777607680000)"
    by (intro mult_right_mono) auto
  then have r: "- (?x ^ 22 / 1124000727777607680000) \<le> (sin (t + 1 / 2 * real 22 * pi) / fact 22) * ?x ^ 22"
    unfolding f by simp
  have "1 - 1 / 2 ^ 54 \<le> (\<Sum>m<22. sin_coeff m * ?x ^ m) - ?x ^ 22 / 1124000727777607680000"
    unfolding sin_maclaurin_22 by (rule sin_maclaurin_22_at_half_pi)
  also have "\<dots> \<le> sin ?x"
    using r unfolding t by linarith
  finally show ?thesis .
qed

text \<open>Evaluating the rounding of a positive real from its binade.\<close>

lemma round64_eval:
  assumes u: "0 < u" and k: "2 powr of_int k \<le> u" "u < 2 powr (of_int k + 1)"
    and e: "e = max (k - 52) (- 1074)"
    and m: "rne (u / 2 powr of_int e) = m"
    and small: "u < 2 ^ 1024 - 2 ^ 970"
  shows "round64 u = Fin (of_int m * 2 powr of_int e)"
proof -
  have "\<lfloor>log 2 u\<rfloor> = k"
    using floor_log_eq_powr_iff [of u 2 k] u k by simp
  then have "ulp_exp u = e" by (simp add: ulp_exp_def e)
  then have "round_mag u = of_int m * 2 powr of_int e"
    using u m by (simp add: round_mag_def)
  then show ?thesis using u small by (simp add: round64_def)
qed

lemma pow2_neg: "(2::real) powr (- real n) = 1 / 2 ^ n"
  by (simp add: powr_minus powr_realpow divide_inverse)

text \<open>The same for a real in \<open>[2 ^ -n, 2 ^ (1 - n))\<close>, with plain powers.\<close>

lemma round64_eval_neg:
  assumes u: "1 / 2 ^ n \<le> u" "u < 2 / 2 ^ n"
    and n: "n \<le> 1022"
    and m: "rne (u * 2 ^ (n + 52)) = m"
  shows "round64 u = Fin (of_int m / 2 ^ (n + 52))"
proof -
  have u0: "0 < u"
  proof -
    have "(0::real) < 1 / 2 ^ n" by simp
    with u(1) show ?thesis by linarith
  qed
  have k1: "2 powr of_int (- int n) \<le> u"
    using u(1) pow2_neg [of n] by simp
  have "(2::real) powr (- real n + 1) = 2 powr (- real n) * 2 powr 1"
    by (rule powr_add)
  then have "(2::real) powr (of_int (- int n) + 1) = 2 powr (- real n) * 2"
    by simp
  then have k2: "u < 2 powr (of_int (- int n) + 1)"
    using u(2) pow2_neg [of n] by simp
  have e: "- int (n + 52) = max (- int n - 52) (- 1074)"
    using n by simp
  have g: "(2::real) powr of_int (- int (n + 52)) = 1 / 2 ^ (n + 52)"
    using pow2_neg [of "n + 52"] by simp
  have m': "rne (u / 2 powr of_int (- int (n + 52))) = m"
    unfolding g using m by simp
  have "u < 2" 
  proof -
    have "(2::real) / 2 ^ n \<le> 2" by (simp add: field_simps)
    with u(2) show ?thesis by linarith
  qed
  then have small: "u < 2 ^ 1024 - 2 ^ 970" by simp
  have "round64 u = Fin (of_int m * 2 powr of_int (- int (n + 52)))"
    using u0 k1 k2 e m' small by (rule round64_eval)
  then show ?thesis unfolding g by simp
qed

text \<open>A tie above an odd integer goes up.\<close>

lemma rne_tie_odd: "odd f \<Longrightarrow> rne (of_int f + 1 / 2) = f + 1"
proof -
  assume "odd f"
  have "\<lfloor>of_int f + (1 / 2 :: real)\<rfloor> = f" by linarith
  then show ?thesis using \<open>odd f\<close> by (simp add: rne_def Let_def)
qed


text \<open>
  The floats of \<open>0.3\<close>, \<open>0.9\<close> and \<open>\<pi>/2\<close>, and the roundings met when \<^verbatim>\<open>to_bounded\<close> is
  evaluated on them.
\<close>

lemma round64_03: "round64 (5404319552844595 / 2 ^ 54) = Fin (5404319552844595 / 2 ^ 54)"
  using round64_eval_neg [of 2 "5404319552844595 / 2 ^ 54" 5404319552844595]
    rne_int [of 5404319552844595]
  by simp

lemma round64_09: "round64 (8106479329266893 / 2 ^ 53) = Fin (8106479329266893 / 2 ^ 53)"
  using round64_eval_neg [of 1 "8106479329266893 / 2 ^ 53" 8106479329266893]
    rne_int [of 8106479329266893]
  by simp

lemma round64_half_pi: "round64 (884279719003555 / 2 ^ 49) = Fin (884279719003555 / 2 ^ 49)"
  using round64_eval_neg [of 0 "884279719003555 / 2 ^ 49" 7074237752028440]
    rne_int [of 7074237752028440]
  by simp

lemma round64_width:
  "round64 (8106479329266893 / 2 ^ 53 - 5404319552844595 / 2 ^ 54) = Fin (5404319552844596 / 2 ^ 53)"
  using round64_eval_neg [of 1 "8106479329266893 / 2 ^ 53 - 5404319552844595 / 2 ^ 54"
      5404319552844596]
    rne_tie_odd [of 5404319552844595]
  by simp

lemma round64_06: "round64 (5404319552844596 / 2 ^ 53) = Fin (5404319552844596 / 2 ^ 53)"
  using round64_eval_neg [of 1 "5404319552844596 / 2 ^ 53" 5404319552844596]
    rne_int [of 5404319552844596]
  by simp

lemma round64_half_width:
  "round64 (5404319552844596 / 2 ^ 53 * 0.5) = Fin (5404319552844596 / 2 ^ 53 * 0.5)"
  using round64_eval_neg [of 2 "5404319552844596 / 2 ^ 53 * 0.5" 5404319552844596]
    rne_int [of 5404319552844596]
  by simp

lemma round64_top:
  "round64 (5404319552844595 / 2 ^ 54 + 5404319552844596 / 2 ^ 53) = Fin (8106479329266894 / 2 ^ 53)"
  using round64_eval_neg [of 1 "5404319552844595 / 2 ^ 54 + 5404319552844596 / 2 ^ 53"
      8106479329266894]
    rne_tie_odd [of 8106479329266893]
  by simp

lemma round64_below_one: "round64 (1 - 1 / 2 ^ 54) = Fin 1"
  using round64_eval_neg [of 1 "1 - 1 / 2 ^ 54" 9007199254740992]
    rne_tie_odd [of 9007199254740991]
  by simp

text \<open>A sine within \<open>2 ^ -54\<close> of 1 rounds to 1.\<close>

lemma sin64_one: "(1::real) - 1 / 2 ^ 54 \<le> sin x \<Longrightarrow> sin64 x = Fin 1"
proof -
  assume "(1::real) - 1 / 2 ^ 54 \<le> sin x"
  then have lo: "fle (round64 (1 - 1 / 2 ^ 54)) (round64 (sin x))"
    using round64_rounding by (intro rounding_mono)
  have hi: "fle (round64 (sin x)) (round64 1)"
    using round64_rounding by (intro rounding_mono) auto
  show ?thesis
    using lo hi unfolding round64_below_one round64_1
    by (cases "round64 (sin x)") (auto simp: sin64_def)
qed

lemma ulp_trace:
  assumes "sin64 (884279719003555 / 2 ^ 49) = Fin 1"
  shows "to_bounded_ieee round64 sin64 (Fin (884279719003555 / 2 ^ 49))
      (Fin (5404319552844595 / 2 ^ 54), Fin (8106479329266893 / 2 ^ 53))
    = Fin (8106479329266894 / 2 ^ 53)"
proof -
  have t: "round64 (5404319552844596 / 2 ^ 53 * 0.5 * 2) = Fin (5404319552844596 / 2 ^ 53)"
    using round64_06 by simp
  show ?thesis
    using assms
    by (simp only: to_bounded_ieee.simps rsin.simps rplus.simps rminus.simps rtimes.simps
        round64_width round64_half_width round64_2 one_add_one t round64_top)
qed

text \<open>The two evaluations of the counterexample, on floats.\<close>

lemma overflow_trace:
  "round64 (- (2 ^ 1023)) = Fin (- (2 ^ 1023)) \<and> round64 (2 ^ 1023) = Fin (2 ^ 1023) \<and>
   to_bounded_ieee round64 sin64 (Fin 0) (Fin (- (2 ^ 1023)), Fin (2 ^ 1023)) = PInf"
proof -
  have p: "round64 (2 ^ 1023) = Fin (2 ^ 1023)"
    using round64_pow2 [of 1023] pow2_int [of 1023] by simp
  have n: "round64 (- (2 ^ 1023)) = Fin (- (2 ^ 1023))"
    using round64_neg [of "2 ^ 1023"] p by simp
  have w: "round64 (2 ^ 1023 - - (2 ^ 1023)) = PInf"
    by (simp add: round64_def)
  have "to_bounded_ieee round64 sin64 (Fin 0) (Fin (- (2 ^ 1023)), Fin (2 ^ 1023)) = PInf"
    using w by (simp add: sin64_def round64_0 round64_1)
  with p n show ?thesis by simp
qed

text \<open>
  C9. The claim: for every \<open>a < b\<close> and every real \<open>x\<close>, \<open>to_bounded(x, (a, b))\<close> lies in
  \<open>[a, b]\<close> and the computation never overflows. The sine does keep the result bounded
  in \<open>x\<close>, but the width \<open>b - a\<close> is computed first and overflows for bounds more than
  the float range apart: on the floats \<open>a = -2 ^ 1023\<close>, \<open>b = 2 ^ 1023\<close> and \<open>x = 0\<close> the width
  is \<open>+\<infinity>\<close> and so is the result. And rounding can carry the result past \<open>b\<close>: on the
  floats of \<open>0.3\<close> and \<open>0.9\<close> at the float of \<open>\<pi>/2\<close> the width rounds up to
  \<open>0.6000000000000001\<close> and the result is \<open>0.9000000000000001\<close>, the float after \<open>b\<close>.
\<close>

theorem to_bounded_range_counterexample:
  "round64 (- (2 ^ 1023)) = Fin (- (2 ^ 1023)) \<and> round64 (2 ^ 1023) = Fin (2 ^ 1023) \<and>
   to_bounded_ieee round64 sin64 (Fin 0) (Fin (- (2 ^ 1023)), Fin (2 ^ 1023)) = PInf \<and>
   round64 (884279719003555 / 2 ^ 49) = Fin (884279719003555 / 2 ^ 49) \<and>
   round64 (5404319552844595 / 2 ^ 54) = Fin (5404319552844595 / 2 ^ 54) \<and>
   round64 (8106479329266893 / 2 ^ 53) = Fin (8106479329266893 / 2 ^ 53) \<and>
   to_bounded_ieee round64 sin64 (Fin (884279719003555 / 2 ^ 49))
      (Fin (5404319552844595 / 2 ^ 54), Fin (8106479329266893 / 2 ^ 53))
    = Fin (8106479329266894 / 2 ^ 53) \<and>
   (8106479329266893 / 2 ^ 53 :: real) < 8106479329266894 / 2 ^ 53"
proof -
  have gt: "(8106479329266893 / 2 ^ 53 :: real) < 8106479329266894 / 2 ^ 53" by simp
  show ?thesis
    using overflow_trace ulp_trace [OF sin64_one [OF sin_half_pi_float]]
      round64_half_pi round64_03 round64_09 gt
    by blast
qed

text \<open>
  C9, as the code has it. In float64 arithmetic, for every rounding that is monotone
  and leaves floats unchanged (with \<open>0\<close> and \<open>2\<close> floats) and every float sine with values
  in \<open>[-1, 1]\<close>, for a float \<open>a < b\<close> and every \<open>x\<close>, however large: if the width
  \<open>b - a\<close> overflows, the result is \<open>+\<infinity>\<close> or NaN; if it rounds to the float \<open>w\<close>, the
  result is never below \<open>a\<close> and never NaN; and if moreover halving \<open>w\<close> is exact (it does
  not underflow), the result is at most \<open>fl(a + w)\<close>, which is \<open>b\<close> up to the rounding of
  the subtraction and of the addition.
\<close>

theorem to_bounded_rounded_range:
  assumes rnd: "rounding rnd" and r0: "rnd 0 = Fin 0" and r2: "rnd 2 = Fin 2"
    and sn: "\<forall>x. \<exists>s. sn x = Fin s \<and> - 1 \<le> s \<and> s \<le> 1"
    and ab: "a < b" and ra: "rnd a = Fin a"
  shows "(rnd (b - a) = PInf \<longrightarrow>
            to_bounded_ieee rnd sn (Fin x) (Fin a, Fin b) = PInf \<or>
            to_bounded_ieee rnd sn (Fin x) (Fin a, Fin b) = NaN) \<and>
         (\<forall>w. rnd (b - a) = Fin w \<longrightarrow>
            fle (Fin a) (to_bounded_ieee rnd sn (Fin x) (Fin a, Fin b))) \<and>
         (\<forall>w. rnd (b - a) = Fin w \<and> rnd (w * 0.5) = Fin (w * 0.5) \<longrightarrow>
            fle (to_bounded_ieee rnd sn (Fin x) (Fin a, Fin b)) (rnd (a + w)))"
proof -
  let ?R = "to_bounded_ieee rnd sn (Fin x) (Fin a, Fin b)"
  from sn obtain s where s: "sn x = Fin s" "- 1 \<le> s" "s \<le> 1" by blast
  have "fle (rnd 0) (rnd (s + 1))" using rnd s(2) by (intro rounding_mono) auto
  moreover have "fle (rnd (s + 1)) (rnd 2)" using rnd s(3) by (intro rounding_mono) auto
  ultimately obtain f where f: "rnd (s + 1) = Fin f" "0 \<le> f" "f \<le> 2"
    unfolding r0 r2 by (cases "rnd (s + 1)") auto
  have R: "?R = rplus rnd (Fin a) (rtimes rnd (rtimes rnd (rnd (b - a)) (Fin 0.5)) (Fin f))"
    using s(1) f(1) by simp
  have over: "?R = PInf \<or> ?R = NaN" if "rnd (b - a) = PInf"
    unfolding R that using f(2) by (cases "f = 0") auto
  have fin: "fle (Fin a) ?R \<and> (rnd (w * 0.5) = Fin (w * 0.5) \<longrightarrow> fle ?R (rnd (a + w)))"
    if w: "rnd (b - a) = Fin w" for w
  proof -
    have "fle (rnd 0) (rnd (b - a))" using rnd ab by (intro rounding_mono) auto
    then have w0: "0 \<le> w" unfolding r0 w by simp
    have rw: "rnd w = Fin w" using rnd w by (rule rounding_idem)
    have "fle (rnd 0) (rnd (w * 0.5))" using rnd w0 by (intro rounding_mono) auto
    moreover have "fle (rnd (w * 0.5)) (rnd w)" using rnd w0 by (intro rounding_mono) auto
    ultimately obtain h where h: "rnd (w * 0.5) = Fin h" "0 \<le> h" "h \<le> w"
      unfolding r0 rw by (cases "rnd (w * 0.5)") auto
    have R': "?R = rplus rnd (Fin a) (rnd (h * f))"
      unfolding R w using h(1) by simp
    have t0: "fle (Fin 0) (rnd (h * f))"
      using rounding_mono [OF rnd, of 0 "h * f"] h(2) f(2) by (simp add: r0)
    have low: "fle (Fin a) ?R"
    proof (cases "rnd (h * f)")
      case (Fin t)
      then have "0 \<le> t" using t0 by simp
      then have "fle (rnd a) (rnd (a + t))" using rnd by (intro rounding_mono) auto
      then show ?thesis unfolding R' Fin ra by simp
    next
      case PInf
      then show ?thesis unfolding R' by simp
    next
      case NInf
      then show ?thesis using t0 by simp
    next
      case NaN
      then show ?thesis using t0 by simp
    qed
    have up: "fle ?R (rnd (a + w))" if hw: "rnd (w * 0.5) = Fin (w * 0.5)"
    proof -
      from hw h(1) have hh: "h = w * 0.5" by simp
      have "w * f \<le> w * 2"
        using f(3) w0 by (rule mult_left_mono)
      then have "h * f \<le> w"
        unfolding hh by simp
      then have "fle (rnd (h * f)) (rnd w)" using rnd by (intro rounding_mono)
      with t0 obtain t where t: "rnd (h * f) = Fin t" "t \<le> w"
        unfolding rw by (cases "rnd (h * f)") auto
      have "fle (rnd (a + t)) (rnd (a + w))" using rnd t(2) by (intro rounding_mono) auto
      then show ?thesis unfolding R' t(1) by simp
    qed
    show ?thesis using low up by blast
  qed
  show ?thesis using over fin by blast
qed

theorem to_bounded_rounded_range_witness:
  "rounding round64 \<and> round64 0 = Fin 0 \<and> round64 2 = Fin 2 \<and> (0::real) < 8 \<and>
   round64 (8 - 0) = Fin 8 \<and> round64 (8 * 0.5) = Fin (8 * 0.5) \<and>
   fle (Fin 0) (to_bounded_ieee round64 sin64 (Fin 10000000000) (Fin 0, Fin 8)) \<and>
   fle (to_bounded_ieee round64 sin64 (Fin 10000000000) (Fin 0, Fin 8)) (Fin 8) \<and>
   round64 (5404319552844595 / 2 ^ 54) = Fin (5404319552844595 / 2 ^ 54) \<and>
   fle (Fin (5404319552844595 / 2 ^ 54))
     (to_bounded_ieee round64 sin64 (Fin 10000000000)
        (Fin (5404319552844595 / 2 ^ 54), Fin (8106479329266893 / 2 ^ 53))) \<and>
   fle (to_bounded_ieee round64 sin64 (Fin 10000000000)
          (Fin (5404319552844595 / 2 ^ 54), Fin (8106479329266893 / 2 ^ 53)))
     (Fin (8106479329266894 / 2 ^ 53))"
proof -
  have sn: "\<forall>x. \<exists>s. sin64 x = Fin s \<and> - 1 \<le> s \<and> s \<le> 1"
    using sin64_range by blast
  have ab: "(0::real) < 8" by simp
  have w: "round64 (8 - 0) = Fin 8" by (simp add: round64_8)
  have h: "round64 (8 * 0.5) = Fin (8 * 0.5)" by (simp add: round64_4)
  have first: "fle (Fin 0) (to_bounded_ieee round64 sin64 (Fin 10000000000) (Fin 0, Fin 8)) \<and>
      fle (to_bounded_ieee round64 sin64 (Fin 10000000000) (Fin 0, Fin 8)) (Fin 8)"
    using to_bounded_rounded_range [OF round64_rounding round64_0 round64_2 sn ab round64_0,
        of 10000000000] w h round64_8
    by auto
  have ab': "(5404319552844595 / 2 ^ 54 :: real) < 8106479329266893 / 2 ^ 53" by simp
  note range = to_bounded_rounded_range
    [OF round64_rounding round64_0 round64_2 sn ab' round64_03, of 10000000000]
  from range have
    "\<forall>w. round64 (8106479329266893 / 2 ^ 53 - 5404319552844595 / 2 ^ 54) = Fin w \<longrightarrow>
       fle (Fin (5404319552844595 / 2 ^ 54))
         (to_bounded_ieee round64 sin64 (Fin 10000000000)
            (Fin (5404319552844595 / 2 ^ 54), Fin (8106479329266893 / 2 ^ 53)))"
    by blast
  with round64_width have lo: "fle (Fin (5404319552844595 / 2 ^ 54))
       (to_bounded_ieee round64 sin64 (Fin 10000000000)
          (Fin (5404319552844595 / 2 ^ 54), Fin (8106479329266893 / 2 ^ 53)))"
    by blast
  from range have
    "\<forall>w. round64 (8106479329266893 / 2 ^ 53 - 5404319552844595 / 2 ^ 54) = Fin w \<and>
         round64 (w * 0.5) = Fin (w * 0.5) \<longrightarrow>
       fle (to_bounded_ieee round64 sin64 (Fin 10000000000)
              (Fin (5404319552844595 / 2 ^ 54), Fin (8106479329266893 / 2 ^ 53)))
         (round64 (5404319552844595 / 2 ^ 54 + w))"
    by blast
  with round64_width round64_half_width have
    "fle (to_bounded_ieee round64 sin64 (Fin 10000000000)
            (Fin (5404319552844595 / 2 ^ 54), Fin (8106479329266893 / 2 ^ 53)))
       (round64 (5404319552844595 / 2 ^ 54 + 5404319552844596 / 2 ^ 53))"
    by blast
  then have up: "fle (to_bounded_ieee round64 sin64 (Fin 10000000000)
            (Fin (5404319552844595 / 2 ^ 54), Fin (8106479329266893 / 2 ^ 53)))
       (Fin (8106479329266894 / 2 ^ 53))"
    unfolding round64_top .
  have second: "fle (Fin (5404319552844595 / 2 ^ 54))
       (to_bounded_ieee round64 sin64 (Fin 10000000000)
          (Fin (5404319552844595 / 2 ^ 54), Fin (8106479329266893 / 2 ^ 53))) \<and>
     fle (to_bounded_ieee round64 sin64 (Fin 10000000000)
            (Fin (5404319552844595 / 2 ^ 54), Fin (8106479329266893 / 2 ^ 53)))
       (Fin (8106479329266894 / 2 ^ 53))"
    using lo up by (rule conjI)
  show ?thesis
    using first second round64_rounding round64_0 round64_2 ab w h round64_03 by blast
qed

section \<open>Properties of the inference code\<close>

text \<open>Every term of the series vanishes at 0.\<close>

lemma std_normal_cdf_0: "std_normal_cdf 0 = 1 / 2"
  by (simp add: std_normal_cdf_def)

lemma fsqrt_NaN_iff: "fsqrt x = NaN \<longleftrightarrow> x = NaN \<or> x = NInf \<or> (\<exists>q<0. x = Fin q)"
  by (cases x) auto

lemma fsqrt_range: "fsqrt x = NaN \<or> fsqrt x = PInf \<or> (\<exists>r\<ge>0. fsqrt x = Fin r)"
  by (cases x) auto

text \<open>
  What a completed run of the body says about its local variables: each statement of the
  source as an equation.
\<close>

lemma body_InrE:
  assumes "get_expected_CLs_body cf mm kw p t h = Inr l"
  obtains m bonly iv num lnum lden mh where
    "mm (p, h) = (m, bonly)"
    "(if truthy (dict_get kw ''pdf_transform'' (PyBool False))
      then to_inf_vec [t, Fin 1] (suggested_bounds m) else Inr [t, Fin 1]) = Inr iv"
    "(if truthy (dict_get kw ''pdf_transform'' (PyBool False))
      then to_bounded_vec (cf mm kw iv ((p, h), t)) (suggested_bounds m)
      else Inr (cf mm kw iv ((p, h), t))) = Inr num"
    "index0 (logpdf m num (expected_data m bonly)) = Inr lnum"
    "index0 (logpdf m bonly (expected_data m bonly)) = Inr lden"
    "index0 bonly = Inr mh"
    "l = \<lparr>initval = iv, numerator = num, denominator = bonly,
          profile_likelihood = Fin (- 2) * (lnum - lden), muhat = mh,
          sqrtqmu = fsqrt (if fless mh t then Fin (- 2) * (lnum - lden) else Fin 0),
          CLsb = Fin 1 - normal_cdf (fsqrt (if fless mh t then Fin (- 2) * (lnum - lden) else Fin 0)),
          CLb = Fin 1 - normal_cdf (Fin 0),
          CLs = (Fin 1 - normal_cdf (fsqrt (if fless mh t then Fin (- 2) * (lnum - lden) else Fin 0)))
                / (Fin 1 - normal_cdf (Fin 0))\<rparr>"
proof -
  obtain m bonly where mb: "mm (p, h) = (m, bonly)" by (cases "mm (p, h)")
  show thesis
    using assms mb that [OF mb]
    unfolding get_expected_CLs_body_def Let_def
    by (simp split: sum.splits)
qed

text \<open>
  Without the transform the body completes as soon as the background-only point and the
  two log-density arrays are not empty.
\<close>

lemma body_returns:
  assumes "mm (p, h) = (m, bonly)"
    and "\<not> truthy (dict_get kw ''pdf_transform'' (PyBool False))"
    and "bonly \<noteq> []"
    and "logpdf m (cf mm kw [t, Fin 1] ((p, h), t)) (expected_data m bonly) \<noteq> []"
    and "logpdf m bonly (expected_data m bonly) \<noteq> []"
  shows "\<exists>l. get_expected_CLs_body cf mm kw p t h = Inr l"
  using assms
  unfolding get_expected_CLs_body_def Let_def index0_def
  by (simp split: list.splits)

text \<open>
  The example model, evaluated: at \<open>test_mu = 1 > muhat = 0\<close>, at \<open>test_mu = muhat = 0\<close>,
  at \<open>test_mu = 1 < muhat = 2\<close>, and with the transform on.
\<close>

lemmas eval_defs =
  get_expected_CLs_body_def get_expected_CLs_def pdict_def gauss_maker_def gauss_maker_at_def
  gauss_model_def idle_fit_def dict_get_def index0_def minus_float64_def std_normal_cdf_0 Let_def

lemma body_plain:
  "get_expected_CLs_body idle_fit (gauss_maker [Fin 0, Fin 1]) Map.empty () (Fin 1) () =
     Inr \<lparr>initval = [Fin 1, Fin 1], numerator = [Fin 1, Fin 1], denominator = [Fin 0, Fin 1],
          profile_likelihood = Fin 2, muhat = Fin 0, sqrtqmu = Fin (sqrt 2),
          CLsb = Fin (1 - std_normal_cdf (sqrt 2)), CLb = Fin (1 / 2),
          CLs = Fin ((1 - std_normal_cdf (sqrt 2)) / (1 / 2))\<rparr>"
  by (simp add: eval_defs)

lemma body_boundary:
  "get_expected_CLs_body idle_fit (gauss_maker [Fin 0, Fin 1]) Map.empty () (Fin 0) () =
     Inr \<lparr>initval = [Fin 0, Fin 1], numerator = [Fin 0, Fin 1], denominator = [Fin 0, Fin 1],
          profile_likelihood = Fin 0, muhat = Fin 0, sqrtqmu = Fin 0,
          CLsb = Fin (1 / 2), CLb = Fin (1 / 2), CLs = Fin 1\<rparr>"
  by (simp add: eval_defs)

lemma body_above:
  "get_expected_CLs_body idle_fit (gauss_maker_at [Fin 2, Fin 1] [Fin 2, Fin 1]) Map.empty ()
      (Fin 1) () =
     Inr \<lparr>initval = [Fin 1, Fin 1], numerator = [Fin 1, Fin 1], denominator = [Fin 2, Fin 1],
          profile_likelihood = Fin 2, muhat = Fin 2, sqrtqmu = Fin 0,
          CLsb = Fin (1 / 2), CLb = Fin (1 / 2), CLs = Fin 1\<rparr>"
  by (simp add: eval_defs)

lemma body_transformed:
  "get_expected_CLs_body idle_fit (gauss_maker [Fin 0, Fin 1]) [''pdf_transform'' \<mapsto> PyBool True] ()
      (Fin 1) () =
     Inr \<lparr>initval = [Fin (arcsin (- (4 / 5))), Fin (arcsin (- (4 / 5)))],
          numerator = [Fin 1, Fin 1], denominator = [Fin 0, Fin 1],
          profile_likelihood = Fin 2, muhat = Fin 0, sqrtqmu = Fin (sqrt 2),
          CLsb = Fin (1 - std_normal_cdf (sqrt 2)), CLb = Fin (1 / 2),
          CLs = Fin ((1 - std_normal_cdf (sqrt 2)) / (1 / 2))\<rparr>"
  by (simp add: eval_defs to_inf_vec_rows to_bounded_vec_rows)

text \<open>
  C3. The claim: the effective test statistic is clamped at zero before the root, so
  \<open>sqrtqmu\<close> is never NaN. The code takes the root of
  \<^verbatim>\<open>jnp.where(muhat < test_mu, profile_likelihood, 0.0)\<close> with no clamp. On the example
  model with expected data at \<open>1\<close> and the background-only point at \<open>0\<close>, testing
  \<open>test_mu = 1\<close>: the fitted point has the larger log-density, \<open>q = -2\<close>,
  \<open>muhat = 0 < 1\<close>, and \<open>sqrtqmu\<close>, \<open>CLsb\<close> and \<open>CLs\<close> are NaN.
\<close>

theorem sqrtqmu_nan_counterexample:
  "get_expected_CLs_body idle_fit (gauss_maker [Fin 1, Fin 1]) Map.empty () (Fin 1) () =
     Inr \<lparr>initval = [Fin 1, Fin 1], numerator = [Fin 1, Fin 1], denominator = [Fin 0, Fin 1],
          profile_likelihood = Fin (- 2), muhat = Fin 0, sqrtqmu = NaN,
          CLsb = NaN, CLb = Fin (1 / 2), CLs = NaN\<rparr>"
  by (simp add: eval_defs)

text \<open>
  C3, as the code has it. \<open>sqrtqmu\<close> is the root of \<open>q\<close> when \<open>muhat < test_mu\<close> and of
  \<open>0\<close> otherwise. It is NaN exactly when \<open>muhat < test_mu\<close> and \<open>q\<close> is negative (or
  NaN); in every other case it is a non-negative number or \<open>+\<infinity>\<close>.
\<close>

theorem sqrtqmu_unclamped:
  assumes "get_expected_CLs_body cf mm kw p t h = Inr l"
  shows "sqrtqmu l = fsqrt (if fless (muhat l) t then profile_likelihood l else Fin 0) \<and>
         (sqrtqmu l = NaN \<longleftrightarrow>
            fless (muhat l) t \<and>
            (profile_likelihood l = NaN \<or> profile_likelihood l = NInf \<or>
             (\<exists>q<0. profile_likelihood l = Fin q))) \<and>
         (sqrtqmu l = NaN \<or> sqrtqmu l = PInf \<or> (\<exists>r\<ge>0. sqrtqmu l = Fin r))"
proof -
  from assms have eq: "sqrtqmu l = fsqrt (if fless (muhat l) t then profile_likelihood l else Fin 0)"
    by (rule body_InrE) simp
  have nan: "sqrtqmu l = NaN \<longleftrightarrow>
            fless (muhat l) t \<and>
            (profile_likelihood l = NaN \<or> profile_likelihood l = NInf \<or>
             (\<exists>q<0. profile_likelihood l = Fin q))"
    unfolding eq by (simp add: fsqrt_NaN_iff)
  have rng: "sqrtqmu l = NaN \<or> sqrtqmu l = PInf \<or> (\<exists>r\<ge>0. sqrtqmu l = Fin r)"
    unfolding eq by (rule fsqrt_range)
  show ?thesis using eq nan rng by blast
qed

theorem sqrtqmu_unclamped_witness:
  "\<exists>l. get_expected_CLs_body idle_fit (gauss_maker [Fin 0, Fin 1]) Map.empty () (Fin 1) () = Inr l \<and>
       profile_likelihood l = Fin 2 \<and> sqrtqmu l = fsqrt (Fin 2) \<and> sqrtqmu l \<noteq> NaN"
  using sqrtqmu_unclamped [OF body_plain] body_plain by simp

text \<open>The call that leaves \<open>pvalues\<close> out returns the one value \<open>CLs = CLsb / CLb\<close>.\<close>

lemma default_call:
  assumes "get_expected_CLs_body cf mm kw p t h = Inr l"
  shows "get_expected_CLs cf mm kw p t h None = Inr [CLs l]"
  using assms by (simp add: get_expected_CLs_def jit_pvalues_def pdict_def)

text \<open>
  C4. In a run that completes, with \<open>m\<close> and \<open>bonlypars\<close> what the model maker returned:
  \<open>muhat\<close> is element 0 of \<open>bonlypars\<close>; the numerator is the fit's result (mapped back
  when the transform is on); and \<open>sqrtqmu\<close> is the root of
  \<open>-2 * (logpdf(numerator, exp_data)[0] - logpdf(bonlypars, exp_data)[0])\<close> when
  \<open>muhat < test_mu\<close>, and of \<open>0\<close> otherwise. So whenever \<open>muhat < test_mu\<close> is false, in
  particular for finite \<open>muhat \<ge> test_mu\<close> and so for \<open>muhat = test_mu\<close>, \<open>sqrtqmu = 0\<close>
  and \<open>CLsb = 0.5\<close>, and the call that leaves \<open>pvalues\<close> out returns \<open>[1]\<close>.
\<close>

theorem exclusion_zeroing:
  assumes "get_expected_CLs_body cf mm kw p t h = Inr l"
    and "mm (p, h) = (m, bonlypars)"
  shows "index0 bonlypars = Inr (muhat l) \<and>
         (if truthy (dict_get kw ''pdf_transform'' (PyBool False))
          then to_inf_vec [t, Fin 1] (suggested_bounds m) else Inr [t, Fin 1]) = Inr (initval l) \<and>
         (if truthy (dict_get kw ''pdf_transform'' (PyBool False))
          then to_bounded_vec (cf mm kw (initval l) ((p, h), t)) (suggested_bounds m)
          else Inr (cf mm kw (initval l) ((p, h), t))) = Inr (numerator l) \<and>
         (\<exists>lnum lden.
            index0 (logpdf m (numerator l) (expected_data m bonlypars)) = Inr lnum \<and>
            index0 (logpdf m bonlypars (expected_data m bonlypars)) = Inr lden \<and>
            sqrtqmu l = fsqrt (if fless (muhat l) t then Fin (- 2) * (lnum - lden) else Fin 0)) \<and>
         CLsb l = Fin 1 - normal_cdf (sqrtqmu l) \<and>
         (\<not> fless (muhat l) t \<longrightarrow>
            sqrtqmu l = Fin 0 \<and> CLsb l = Fin (1 / 2) \<and>
            get_expected_CLs cf mm kw p t h None = Inr [Fin 1]) \<and>
         (\<forall>mh tm. muhat l = Fin mh \<and> t = Fin tm \<and> tm \<le> mh \<longrightarrow>
            sqrtqmu l = Fin 0 \<and> CLsb l = Fin (1 / 2))"
  using assms(1)
proof (rule body_InrE)
  fix m' bonly iv num lnum lden mh
  assume mb: "mm (p, h) = (m', bonly)"
    and i: "(if truthy (dict_get kw ''pdf_transform'' (PyBool False))
      then to_inf_vec [t, Fin 1] (suggested_bounds m') else Inr [t, Fin 1]) = Inr iv"
    and n: "(if truthy (dict_get kw ''pdf_transform'' (PyBool False))
      then to_bounded_vec (cf mm kw iv ((p, h), t)) (suggested_bounds m')
      else Inr (cf mm kw iv ((p, h), t))) = Inr num"
    and ln: "index0 (logpdf m' num (expected_data m' bonly)) = Inr lnum"
    and ld: "index0 (logpdf m' bonly (expected_data m' bonly)) = Inr lden"
    and mu: "index0 bonly = Inr mh"
    and l: "l = \<lparr>initval = iv, numerator = num, denominator = bonly,
          profile_likelihood = Fin (- 2) * (lnum - lden), muhat = mh,
          sqrtqmu = fsqrt (if fless mh t then Fin (- 2) * (lnum - lden) else Fin 0),
          CLsb = Fin 1 - normal_cdf (fsqrt (if fless mh t then Fin (- 2) * (lnum - lden) else Fin 0)),
          CLb = Fin 1 - normal_cdf (Fin 0),
          CLs = (Fin 1 - normal_cdf (fsqrt (if fless mh t then Fin (- 2) * (lnum - lden) else Fin 0)))
                / (Fin 1 - normal_cdf (Fin 0))\<rparr>"
  from mb assms(2) have same: "m' = m" "bonly = bonlypars" by simp_all
  have f1: "index0 bonlypars = Inr (muhat l)"
    using mu unfolding l same by simp
  have f2: "(if truthy (dict_get kw ''pdf_transform'' (PyBool False))
          then to_inf_vec [t, Fin 1] (suggested_bounds m) else Inr [t, Fin 1]) = Inr (initval l)"
    using i unfolding l same by (simp split: if_splits)
  have f3: "(if truthy (dict_get kw ''pdf_transform'' (PyBool False))
          then to_bounded_vec (cf mm kw (initval l) ((p, h), t)) (suggested_bounds m)
          else Inr (cf mm kw (initval l) ((p, h), t))) = Inr (numerator l)"
    using n unfolding l same by (simp split: if_splits)
  have f4: "\<exists>lnum lden.
            index0 (logpdf m (numerator l) (expected_data m bonlypars)) = Inr lnum \<and>
            index0 (logpdf m bonlypars (expected_data m bonlypars)) = Inr lden \<and>
            sqrtqmu l = fsqrt (if fless (muhat l) t then Fin (- 2) * (lnum - lden) else Fin 0)"
    using ln ld unfolding l same by simp
  have f5: "CLsb l = Fin 1 - normal_cdf (sqrtqmu l)"
    unfolding l by simp
  have cls: "CLs l = CLsb l / (Fin 1 - normal_cdf (Fin 0))"
    unfolding l by simp
  have sq: "sqrtqmu l = Fin 0" if "\<not> fless (muhat l) t"
    using that unfolding l by simp
  have zero: "sqrtqmu l = Fin 0 \<and> CLsb l = Fin (1 / 2) \<and>
              get_expected_CLs cf mm kw p t h None = Inr [Fin 1]"
    if nl: "\<not> fless (muhat l) t"
  proof -
    have sb: "CLsb l = Fin (1 / 2)"
      using f5 sq [OF nl] by (simp add: std_normal_cdf_0 minus_float64_def)
    have "CLs l = Fin 1"
      using cls sb by (simp add: std_normal_cdf_0 minus_float64_def)
    then show ?thesis
      using sq [OF nl] sb default_call [OF assms(1)] by simp
  qed
  have fin: "sqrtqmu l = Fin 0 \<and> CLsb l = Fin (1 / 2)"
    if "muhat l = Fin mh' \<and> t = Fin tm \<and> tm \<le> mh'" for mh' tm
    using that zero by simp
  show ?thesis using f1 f2 f3 f4 f5 zero fin by blast
qed

theorem exclusion_zeroing_witness:
  "(\<exists>l. get_expected_CLs_body idle_fit (gauss_maker [Fin 0, Fin 1]) Map.empty () (Fin 0) () = Inr l \<and>
        muhat l = Fin 0 \<and> sqrtqmu l = Fin 0 \<and> CLsb l = Fin (1 / 2)) \<and>
   (\<exists>l. get_expected_CLs_body idle_fit (gauss_maker_at [Fin 2, Fin 1] [Fin 2, Fin 1]) Map.empty ()
          (Fin 1) () = Inr l \<and>
        muhat l = Fin 2 \<and> numerator l = [Fin 1, Fin 1] \<and> profile_likelihood l = Fin 2 \<and>
        sqrtqmu l = Fin 0 \<and> CLsb l = Fin (1 / 2)) \<and>
   get_expected_CLs idle_fit (gauss_maker_at [Fin 2, Fin 1] [Fin 2, Fin 1]) Map.empty ()
      (Fin 1) () None = Inr [Fin 1] \<and>
   (\<exists>l. get_expected_CLs_body idle_fit (gauss_maker [Fin 0, Fin 1]) Map.empty () (Fin 1) () = Inr l \<and>
        muhat l = Fin 0 \<and> numerator l = [Fin 1, Fin 1] \<and>
        sqrtqmu l = fsqrt (Fin (- 2) * (Fin (- 1) - Fin 0)) \<and> sqrtqmu l = Fin (sqrt 2))"
  using exclusion_zeroing [OF body_boundary, of "gauss_model [Fin 0, Fin 1]" "[Fin 0, Fin 1]"]
    exclusion_zeroing [OF body_above, of "gauss_model [Fin 2, Fin 1]" "[Fin 2, Fin 1]"]
    exclusion_zeroing [OF body_plain, of "gauss_model [Fin 0, Fin 1]" "[Fin 0, Fin 1]"]
    body_boundary body_above body_plain
  by (simp add: gauss_maker_def gauss_maker_at_def minus_float64_def)

text \<open>
  C5. The denominator is the background-only point that the model maker returned,
  whatever the fit component and the solver keywords are, and
  \<open>q = -2 * (logpdf(numerator, exp_data)[0] - logpdf(denominator, exp_data)[0])\<close> with
  \<open>exp_data\<close> the expected data at that point.
\<close>

theorem profile_likelihood_formula:
  assumes "get_expected_CLs_body cf mm kw p t h = Inr l"
    and "mm (p, h) = (m, bonlypars)"
  shows "denominator l = bonlypars \<and>
         (\<exists>lnum lden.
            index0 (logpdf m (numerator l) (expected_data m bonlypars)) = Inr lnum \<and>
            index0 (logpdf m (denominator l) (expected_data m bonlypars)) = Inr lden \<and>
            profile_likelihood l = Fin (- 2) * (lnum - lden))"
  using assms(1)
proof (rule body_InrE)
  fix m' bonly iv num lnum lden mh
  assume mb: "mm (p, h) = (m', bonly)"
    and n: "index0 (logpdf m' num (expected_data m' bonly)) = Inr lnum"
    and d: "index0 (logpdf m' bonly (expected_data m' bonly)) = Inr lden"
    and l: "l = \<lparr>initval = iv, numerator = num, denominator = bonly,
          profile_likelihood = Fin (- 2) * (lnum - lden), muhat = mh,
          sqrtqmu = fsqrt (if fless mh t then Fin (- 2) * (lnum - lden) else Fin 0),
          CLsb = Fin 1 - normal_cdf (fsqrt (if fless mh t then Fin (- 2) * (lnum - lden) else Fin 0)),
          CLb = Fin 1 - normal_cdf (Fin 0),
          CLs = (Fin 1 - normal_cdf (fsqrt (if fless mh t then Fin (- 2) * (lnum - lden) else Fin 0)))
                / (Fin 1 - normal_cdf (Fin 0))\<rparr>"
  from mb assms(2) have same: "m' = m" "bonly = bonlypars" by simp_all
  show ?thesis
    using n d unfolding l same by simp
qed

theorem profile_likelihood_formula_witness:
  "\<exists>l. get_expected_CLs_body idle_fit (gauss_maker [Fin 0, Fin 1]) Map.empty () (Fin 1) () = Inr l \<and>
       gauss_maker [Fin 0, Fin 1] ((), ()) = (gauss_model [Fin 0, Fin 1], [Fin 0, Fin 1]) \<and>
       denominator l = [Fin 0, Fin 1] \<and>
       profile_likelihood l = Fin (- 2) * (Fin (- 1) - Fin 0)"
  using profile_likelihood_formula [OF body_plain, of "gauss_model [Fin 0, Fin 1]" "[Fin 0, Fin 1]"]
    body_plain
  by (simp add: gauss_maker_def minus_float64_def)

text \<open>The list comprehension over the requested keys: all found, or the first missing one raised.\<close>

lemma lookup_all_known:
  "set keys \<subseteq> dom d \<Longrightarrow>
     \<exists>vs. lookup_all d keys = Inr vs \<and> length vs = length keys \<and>
          list_all2 (\<lambda>k v. d k = Some v) keys vs"
proof (induction keys)
  case Nil
  then show ?case by simp
next
  case (Cons k keys)
  then obtain vs where vs: "lookup_all d keys = Inr vs" "length vs = length keys"
      "list_all2 (\<lambda>k v. d k = Some v) keys vs"
    by auto
  from Cons.prems obtain v where v: "d k = Some v" by auto
  show ?case using vs v by simp
qed

lemma lookup_all_unknown:
  "\<not> set keys \<subseteq> dom d \<Longrightarrow>
     \<exists>k. k \<in> set keys \<and> k \<notin> dom d \<and> lookup_all d keys = Inl (KeyError k)"
proof (induction keys)
  case Nil
  then show ?case by simp
next
  case (Cons k keys)
  show ?case
  proof (cases "d k")
    case None
    then show ?thesis by auto
  next
    case (Some v)
    with Cons.prems have "\<not> set keys \<subseteq> dom d" by auto
    then obtain k' where "k' \<in> set keys" "k' \<notin> dom d" "lookup_all d keys = Inl (KeyError k')"
      using Cons.IH by blast
    then show ?thesis using Some by auto
  qed
qed

lemma dom_pdict: "dom (pdict l) = {''CLs'', ''p_sb'', ''p_b''}"
  by (auto simp: pdict_def split: if_splits)

text \<open>
  C7. The claim: a key outside \<open>{CLs, p_sb, p_b}\<close> makes the call fail, and a list of
  recognised keys gives a result of the same length in the same order. The second half
  fails: every non-empty \<open>pvalues\<close> list that a caller passes, recognised keys or not, is
  refused by the \<^verbatim>\<open>jax.jit\<close> wrapper with a \<^verbatim>\<open>TypeError\<close> before the body and its dictionary
  lookup run, whatever the model, the fit and the other arguments are.
\<close>

theorem passed_pvalues_refused:
  assumes "keys \<noteq> []"
  shows "get_expected_CLs cf mm kw p t h (Some keys) = Inl TypeError"
  using assms by (simp add: get_expected_CLs_def jit_pvalues_def)

theorem passed_pvalues_refused_witness:
  "[''CLs'', ''p_sb'', ''p_b''] \<noteq> [] \<and>
   get_expected_CLs idle_fit (gauss_maker [Fin 0, Fin 1]) Map.empty () (Fin 1) ()
      (Some [''CLs'', ''p_sb'', ''p_b'']) = Inl TypeError"
  using passed_pvalues_refused [of "[''CLs'', ''p_sb'', ''p_b'']" idle_fit
      "gauss_maker [Fin 0, Fin 1]" Map.empty "()" "Fin 1" "()"]
  by simp

text \<open>
  In a run that completes, \<open>CLb = 1 - \<Phi>(0) = 0.5\<close> and \<open>CLs = CLsb / CLb\<close>, and the call
  that leaves \<open>pvalues\<close> out returns that \<open>CLs\<close>.
\<close>

lemma CLb_half:
  assumes "get_expected_CLs_body cf mm kw p t h = Inr l"
  shows "CLb l = Fin (1 / 2) \<and> CLsb l = Fin 1 - normal_cdf (sqrtqmu l) \<and>
         get_expected_CLs cf mm kw p t h None = Inr [CLsb l / CLb l]"
proof -
  from assms have b: "CLb l = Fin (1 / 2)"
    by (rule body_InrE) (simp add: std_normal_cdf_0 minus_float64_def)
  from assms have sb: "CLsb l = Fin 1 - normal_cdf (sqrtqmu l)"
    by (rule body_InrE) simp
  from assms have s: "CLs l = CLsb l / CLb l"
    by (rule body_InrE) simp
  show ?thesis using b sb s default_call [OF assms] by simp
qed

text \<open>
  C6. The claim: \<open>CLb\<close> is \<open>0.5\<close> in every invocation, the call with
  \<open>pvalues = ["p_b"]\<close> returns \<open>[0.5]\<close>, and \<open>CLs\<close> is returned as \<open>CLsb / CLb\<close>. The call
  with \<open>pvalues = ["p_b"]\<close> returns nothing: for every model, fit and input it ends in the
  wrapper's \<^verbatim>\<open>TypeError\<close>.
\<close>

theorem p_b_request_refused:
  "get_expected_CLs cf mm kw p t h (Some [''p_b'']) = Inl TypeError"
  by (simp add: get_expected_CLs_def jit_pvalues_def)

text \<open>
  C10. When \<^verbatim>\<open>pdf_transform\<close> is absent from the solver keywords, or present and false,
  the fit receives \<open>[test_mu, 1.0]\<close> itself and its result is the numerator. When it is
  present and true, the fit receives \<open>to_inf_vec([test_mu, 1.0], bounds)\<close> and the
  numerator is \<open>to_bounded_vec\<close> of its result.
\<close>

theorem pdf_transform_flag:
  assumes "get_expected_CLs_body cf mm kw p t h = Inr l"
  shows "(kw ''pdf_transform'' = None \<or> (\<exists>v. kw ''pdf_transform'' = Some v \<and> \<not> truthy v) \<longrightarrow>
            initval l = [t, Fin 1] \<and> numerator l = cf mm kw [t, Fin 1] ((p, h), t)) \<and>
         ((\<exists>v. kw ''pdf_transform'' = Some v \<and> truthy v) \<longrightarrow>
            to_inf_vec [t, Fin 1] (suggested_bounds (fst (mm (p, h)))) = Inr (initval l) \<and>
            to_bounded_vec (cf mm kw (initval l) ((p, h), t)) (suggested_bounds (fst (mm (p, h))))
              = Inr (numerator l))"
  using assms
proof (rule body_InrE)
  fix m bonly iv num lnum lden mh
  assume mb: "mm (p, h) = (m, bonly)"
    and i: "(if truthy (dict_get kw ''pdf_transform'' (PyBool False))
      then to_inf_vec [t, Fin 1] (suggested_bounds m) else Inr [t, Fin 1]) = Inr iv"
    and n: "(if truthy (dict_get kw ''pdf_transform'' (PyBool False))
      then to_bounded_vec (cf mm kw iv ((p, h), t)) (suggested_bounds m)
      else Inr (cf mm kw iv ((p, h), t))) = Inr num"
    and l: "l = \<lparr>initval = iv, numerator = num, denominator = bonly,
          profile_likelihood = Fin (- 2) * (lnum - lden), muhat = mh,
          sqrtqmu = fsqrt (if fless mh t then Fin (- 2) * (lnum - lden) else Fin 0),
          CLsb = Fin 1 - normal_cdf (fsqrt (if fless mh t then Fin (- 2) * (lnum - lden) else Fin 0)),
          CLb = Fin 1 - normal_cdf (Fin 0),
          CLs = (Fin 1 - normal_cdf (fsqrt (if fless mh t then Fin (- 2) * (lnum - lden) else Fin 0)))
                / (Fin 1 - normal_cdf (Fin 0))\<rparr>"
  have off: "initval l = [t, Fin 1] \<and> numerator l = cf mm kw [t, Fin 1] ((p, h), t)"
    if "kw ''pdf_transform'' = None \<or> (\<exists>v. kw ''pdf_transform'' = Some v \<and> \<not> truthy v)"
  proof -
    from that have "\<not> truthy (dict_get kw ''pdf_transform'' (PyBool False))"
      by (auto simp: dict_get_def)
    with i n show ?thesis unfolding l by auto
  qed
  have on: "to_inf_vec [t, Fin 1] (suggested_bounds (fst (mm (p, h)))) = Inr (initval l) \<and>
            to_bounded_vec (cf mm kw (initval l) ((p, h), t)) (suggested_bounds (fst (mm (p, h))))
              = Inr (numerator l)"
    if "\<exists>v. kw ''pdf_transform'' = Some v \<and> truthy v"
  proof -
    from that have "truthy (dict_get kw ''pdf_transform'' (PyBool False))"
      by (auto simp: dict_get_def)
    with i n show ?thesis unfolding l mb by simp
  qed
  show ?thesis using off on by blast
qed

theorem pdf_transform_flag_witness:
  "(\<exists>l. get_expected_CLs_body idle_fit (gauss_maker [Fin 0, Fin 1]) Map.empty () (Fin 1) () = Inr l \<and>
        initval l = [Fin 1, Fin 1] \<and> numerator l = [Fin 1, Fin 1]) \<and>
   (\<exists>l. get_expected_CLs_body idle_fit (gauss_maker [Fin 0, Fin 1])
          [''pdf_transform'' \<mapsto> PyBool True] () (Fin 1) () = Inr l \<and>
        to_inf_vec [Fin 1, Fin 1] [(Fin 0, Fin 10), (Fin 0, Fin 10)] = Inr (initval l) \<and>
        to_bounded_vec (initval l) [(Fin 0, Fin 10), (Fin 0, Fin 10)] = Inr (numerator l))"
  using pdf_transform_flag [OF body_plain] pdf_transform_flag [OF body_transformed]
    body_plain body_transformed
  by (simp add: gauss_maker_def gauss_model_def idle_fit_def)

end
